theory Spec2Isabelle
  imports Main "HOL-Library.Sublist"
begin

section \<open>JavaScript strings\<close>

text \<open>
  A JavaScript string is a sequence of UTF-16 code units. The markers the parser looks
  for lie outside ASCII, so a string is modelled as the list of its code units, each a
  natural number. \<open>js\<close> embeds an ASCII literal.
\<close>

type_synonym jstring = "nat list"

definition js :: "string \<Rightarrow> jstring" where
  "js s = map of_char s"

text \<open>The check mark U+2713, the ballot cross U+2717 and the down arrow U+2193.\<close>

definition passMarker :: nat where "passMarker = 10003"
definition failMarker :: nat where "failMarker = 10007"
definition skipMarker :: nat where "skipMarker = 8595"

text \<open>
  The character classes of ECMAScript: a line terminator, white space as \<open>\\s\<close> and
  \<open>trim\<close> see it (white space and line terminators), what \<open>.\<close> matches without
  the \<open>s\<close> flag, and \<open>\\d\<close>.
\<close>

definition isLineTerminator :: "nat \<Rightarrow> bool" where
  "isLineTerminator c = (c = 10 \<or> c = 13 \<or> c = 8232 \<or> c = 8233)"

definition isSpace :: "nat \<Rightarrow> bool" where
  "isSpace c = (c = 9 \<or> c = 11 \<or> c = 12 \<or> c = 32 \<or> c = 160 \<or> c = 5760
     \<or> (8192 \<le> c \<and> c \<le> 8202) \<or> c = 8239 \<or> c = 8287 \<or> c = 12288 \<or> c = 65279
     \<or> isLineTerminator c)"

definition isDot :: "nat \<Rightarrow> bool" where
  "isDot c = (\<not> isLineTerminator c)"

definition isDigit :: "nat \<Rightarrow> bool" where
  "isDigit c = (48 \<le> c \<and> c \<le> 57)"

text \<open>\<open>String.prototype.trim\<close>: white space is removed at both ends.\<close>

definition trim :: "jstring \<Rightarrow> jstring" where
  "trim s = rev (dropWhile isSpace (rev (dropWhile isSpace s)))"

text \<open>\<open>String.prototype.startsWith\<close>.\<close>

definition startsWith :: "jstring \<Rightarrow> jstring \<Rightarrow> bool" where
  "startsWith s p = prefix p s"

text \<open>
  \<open>String.prototype.split\<close> with a string separator: the string is cut at every
  occurrence of the separator, found from left to right; \<open>cur\<close> holds the piece being
  read, reversed. With the empty separator the result is the list of code units.
\<close>

function splitFrom :: "jstring \<Rightarrow> jstring \<Rightarrow> jstring \<Rightarrow> jstring list" where
  "splitFrom sep cur [] = [rev cur]"
| "splitFrom sep cur (c # cs) =
     (if sep \<noteq> [] \<and> prefix sep (c # cs)
      then rev cur # splitFrom sep [] (drop (length sep) (c # cs))
      else splitFrom sep (c # cur) cs)"
  by pat_completeness auto
termination
  by (relation "measure (\<lambda>(sep, cur, s). length s)") (auto simp: neq_Nil_conv)

definition split :: "jstring \<Rightarrow> jstring \<Rightarrow> jstring list" where
  "split s sep = (if sep = [] then map (\<lambda>c. [c]) s else splitFrom sep [] s)"

text \<open>\<open>Array.prototype.join\<close>.\<close>

fun join :: "jstring list \<Rightarrow> jstring \<Rightarrow> jstring" where
  "join [] sep = []"
| "join [p] sep = p"
| "join (p # q # ps) sep = p @ sep @ join (q # ps) sep"

text \<open>
  \<open>parseInt\<close> on a string of decimal digits (the only strings the parser hands it), and
  the decimal numeral a template literal prints for a count. Both are exact on the
  integers; the rounding of a double above \<open>2 ^ 53\<close> is left out.
\<close>

definition parseInt :: "jstring \<Rightarrow> nat" where
  "parseInt ds = foldl (\<lambda>n d. 10 * n + (d - 48)) 0 ds"

fun numberToString :: "nat \<Rightarrow> jstring" where
  "numberToString n =
     (if n < 10 then [48 + n] else numberToString (n div 10) @ [48 + n mod 10])"

declare numberToString.simps [simp del]

section \<open>The three regular expressions of the parser\<close>

text \<open>
  A backtracking matcher tries the ways a quantifier can match in a fixed order: a greedy
  \<open>+\<close> the longest run first, a lazy \<open>+?\<close> the shortest first. Each function lists,
  in that order, the run matched and the rest of the input; the match of a whole
  expression is the first combination that reaches its end.
\<close>

definition greedyPlus :: "(nat \<Rightarrow> bool) \<Rightarrow> jstring \<Rightarrow> (jstring \<times> jstring) list" where
  "greedyPlus C s = map (\<lambda>n. (take n s, drop n s)) (rev [1 ..< Suc (length (takeWhile C s))])"

definition lazyPlus :: "(nat \<Rightarrow> bool) \<Rightarrow> jstring \<Rightarrow> (jstring \<times> jstring) list" where
  "lazyPlus C s = map (\<lambda>n. (take n s, drop n s)) [1 ..< Suc (length (takeWhile C s))]"

definition firstMatch :: "'a list \<Rightarrow> 'a option" where
  "firstMatch ms = (case ms of [] \<Rightarrow> None | m # _ \<Rightarrow> Some m)"

text \<open>
  \<open>/^M\\s+(.+?)\\s+(\\d+)ms$/\<close> for a marker \<open>M\<close>: the result is the pair of the two
  captured groups.
\<close>

definition durationRegex :: "nat \<Rightarrow> jstring \<Rightarrow> (jstring \<times> jstring) option" where
  "durationRegex m s =
     (case s of
        [] \<Rightarrow> None
      | c # r \<Rightarrow>
          if c \<noteq> m then None
          else firstMatch
            [(label, digits).
               (sp1, r1) \<leftarrow> greedyPlus isSpace r,
               (label, r2) \<leftarrow> lazyPlus isDot r1,
               (sp2, r3) \<leftarrow> greedyPlus isSpace r2,
               (digits, r4) \<leftarrow> greedyPlus isDigit r3,
               r4 = js ''ms''])"

definition passedRegex :: "jstring \<Rightarrow> (jstring \<times> jstring) option" where
  "passedRegex = durationRegex passMarker"

definition failedRegex :: "jstring \<Rightarrow> (jstring \<times> jstring) option" where
  "failedRegex = durationRegex failMarker"

text \<open>\<open>/^M\\s+(.+)$/\<close> with the skip marker: the result is the captured group.\<close>

definition skippedRegex :: "jstring \<Rightarrow> jstring option" where
  "skippedRegex s =
     (case s of
        [] \<Rightarrow> None
      | c # r \<Rightarrow>
          if c \<noteq> skipMarker then None
          else firstMatch
            [label.
               (sp1, r1) \<leftarrow> greedyPlus isSpace r,
               (label, r2) \<leftarrow> greedyPlus isDot r1,
               r2 = []])"

section \<open>Parsing the output of the test tool\<close>

datatype test_status = TestPassed | TestFailed | TestSkipped

record TestResult =
  suite :: jstring
  name :: jstring
  status :: test_status
  duration :: nat
  error :: "jstring option"
  stackTrace :: "jstring option"

record stats =
  passed :: nat
  failed :: nat
  total :: nat

record parse_state =
  filePassed :: nat
  fileFailed :: nat
  fileTotal :: nat
  testResults :: "TestResult list"

text \<open>
  The object pushed for a matched line. \<open>parts[0] || 'unknown'\<close> and
  \<open>parts.slice(1).join(' > ') || match[1]\<close> take the right operand when the left one
  is the empty string (or undefined, for an empty array).
\<close>

definition suiteOf :: "jstring list \<Rightarrow> jstring" where
  "suiteOf parts =
     (case parts of [] \<Rightarrow> js ''unknown'' | p # _ \<Rightarrow> if p = [] then js ''unknown'' else p)"

definition nameOf :: "jstring list \<Rightarrow> jstring \<Rightarrow> jstring" where
  "nameOf parts label =
     (let n = join (tl parts) (js '' > '') in if n = [] then label else n)"

definition orZero :: "nat \<Rightarrow> nat" where
  "orZero n = (if n = 0 then 0 else n)"

definition parseLine :: "jstring \<Rightarrow> parse_state \<Rightarrow> parse_state" where
  "parseLine line st =
     (let trimmed = trim line in
      if startsWith trimmed [passMarker] then
        (let st1 = st\<lparr>filePassed := filePassed st + 1, fileTotal := fileTotal st + 1\<rparr> in
         case passedRegex trimmed of
           Some (label, digits) \<Rightarrow>
             (let parts = split label (js '' > '') in
              st1\<lparr>testResults := testResults st1 @
                [\<lparr>suite = suiteOf parts, name = nameOf parts label, status = TestPassed,
                  duration = orZero (parseInt digits), error = None, stackTrace = None\<rparr>]\<rparr>)
         | None \<Rightarrow> st1)
      else if startsWith trimmed [failMarker] then
        (let st1 = st\<lparr>fileFailed := fileFailed st + 1, fileTotal := fileTotal st + 1\<rparr> in
         case failedRegex trimmed of
           Some (label, digits) \<Rightarrow>
             (let parts = split label (js '' > '') in
              st1\<lparr>testResults := testResults st1 @
                [\<lparr>suite = suiteOf parts, name = nameOf parts label, status = TestFailed,
                  duration = orZero (parseInt digits),
                  error = Some (js ''Test failed - check logs for details''),
                  stackTrace = None\<rparr>]\<rparr>)
         | None \<Rightarrow> st1)
      else if startsWith trimmed [skipMarker] then
        (let st1 = st\<lparr>fileTotal := fileTotal st + 1\<rparr> in
         case skippedRegex trimmed of
           Some label \<Rightarrow>
             (let parts = split label (js '' > '') in
              st1\<lparr>testResults := testResults st1 @
                [\<lparr>suite = suiteOf parts, name = nameOf parts label, status = TestSkipped,
                  duration = 0, error = None, stackTrace = None\<rparr>]\<rparr>)
         | None \<Rightarrow> st1)
      else st)"

text \<open>
  \<open>parseAndUpdateTestCounts\<close>: the loop over the lines of the output. The array it
  pushes to is a parameter and comes back extended; the tracker it is handed is not used.
\<close>

definition parseAndUpdateTestCounts :: "jstring \<Rightarrow> TestResult list \<Rightarrow> stats \<times> TestResult list" where
  "parseAndUpdateTestCounts output results =
     (let st = foldl (\<lambda>st line. parseLine line st)
                 \<lparr>filePassed = 0, fileFailed = 0, fileTotal = 0, testResults = results\<rparr>
                 (split output [10])
      in (\<lparr>passed = filePassed st, failed = fileFailed st, total = fileTotal st\<rparr>,
          testResults st))"


section \<open>The environment of the tracker\<close>

text \<open>
  A JavaScript error as the code reads it: its message, and the \<open>stdout\<close> and
  \<open>stderr\<close> that \<open>execSync\<close> attaches to the error of a failed command. A property
  that is undefined is the empty string here: the code reads both only through \<open>||\<close>,
  which takes its right operand for either.
\<close>

record js_error =
  message :: jstring
  stdout :: jstring
  stderr :: jstring

datatype run_status = Running | Passed | Failed

datatype phase = backend | frontend

text \<open>
  The two tables behind \<open>this.testRuns\<close> and \<open>this.testCases\<close>. A column the insert
  gives no value for is null.
\<close>

record run_row =
  run_id :: nat
  run_commitHash :: "jstring option"
  run_branch :: jstring
  run_status :: run_status
  run_startedAt :: int
  run_totalFiles :: nat
  run_completedFiles :: nat
  run_currentFile :: "jstring option"
  run_currentPhase :: "phase option"
  run_totalTests :: nat
  run_passedTests :: nat
  run_failedTests :: nat
  run_duration :: "int option"
  run_completedAt :: "int option"
  run_errorSummary :: "jstring option"

record case_row =
  case_testRunId :: nat
  case_testSuite :: jstring
  case_testName :: jstring
  case_status :: test_status
  case_duration :: nat
  case_errorMessage :: "jstring option"
  case_stackTrace :: "jstring option"

text \<open>
  The statements the tracker sends to the store: the insert of a run with the row as
  the store keeps it, the three updates of the row with a given identifier with the
  values they set, and the bulk insert of test cases.
\<close>

datatype stmt =
    InsertRun run_row
  | UpdateProgress nat jstring nat phase nat
  | UpdateCounts nat nat nat nat
  | UpdateFinal nat run_status nat nat nat int int "jstring option"
  | InsertCases "case_row list"

text \<open>
  What the tracker prints, one constructor for each call of \<open>console\<close> in the class,
  with the values the message interpolates.
\<close>

datatype level = Log | Warn | Error

datatype notice =
    RunStarted nat
  | NoRunForProgress
  | ProgressWritten nat nat phase jstring
  | ProgressGaveUp nat jstring
  | ProgressLocal nat nat phase jstring
  | ProgressRetry nat nat
  | NoRunForCounts
  | CountsWritten nat nat nat
  | CountsGaveUp nat jstring
  | CountsRetry nat nat
  | NoRunForCompletion
  | RunCompleted run_status nat nat
  | CompletionFailed js_error

datatype event =
    Statement stmt bool
  | Console level notice
  | Timeout nat

text \<open>
  The state a run acts on: the two fields of the \<open>TestRunner\<close> object that change,
  the two tables, the clock behind \<open>Date.now()\<close> and \<open>new Date()\<close> in milliseconds,
  and what can be observed from outside, in order: each statement sent to the store with
  its success, each line the tracker prints, each timeout awaited.

  The store is not part of the repository. It is taken to run each statement as a whole
  or not at all, and \<open>faults\<close> says which: every statement consumes the head of the
  list, fails with that message when there is one, and succeeds otherwise and when the
  list is used up. Any pattern of failures is some such list.
\<close>

record world =
  testRunId :: "nat option"
  startTime :: int
  testRuns :: "run_row list"
  testCases :: "case_row list"
  faults :: "jstring option list"
  clock :: int
  trace :: "event list"

definition console :: "level \<Rightarrow> notice \<Rightarrow> world \<Rightarrow> world" where
  "console l n w = w\<lparr>trace := trace w @ [Console l n]\<rparr>"

text \<open>Awaiting \<open>setTimeout(resolve, ms)\<close>: the clock moves on by the delay.\<close>

definition sleep :: "nat \<Rightarrow> world \<Rightarrow> world" where
  "sleep ms w = w\<lparr>clock := clock w + int ms, trace := trace w @ [Timeout ms]\<rparr>"

text \<open>The identifier a serial column gives the next row: above every one in the table.\<close>

definition freshId :: "run_row list \<Rightarrow> nat" where
  "freshId rows = Suc (foldr max (map run_id rows) 0)"

text \<open>
  An update sets the listed columns of the rows with the identifier. The query builder
  leaves a key whose value is undefined out of the statement, so a final update without
  an error summary keeps the column as it is.
\<close>

definition updateRows :: "nat \<Rightarrow> (run_row \<Rightarrow> run_row) \<Rightarrow> run_row list \<Rightarrow> run_row list" where
  "updateRows rid f rows = map (\<lambda>r. if run_id r = rid then f r else r) rows"

fun store :: "stmt \<Rightarrow> world \<Rightarrow> world" where
  "store (InsertRun row) w = w\<lparr>testRuns := testRuns w @ [row]\<rparr>"
| "store (UpdateProgress rid file completed ph files) w =
     w\<lparr>testRuns := updateRows rid
        (\<lambda>r. r\<lparr>run_currentFile := Some file, run_completedFiles := completed,
                run_currentPhase := Some ph, run_totalFiles := files\<rparr>) (testRuns w)\<rparr>"
| "store (UpdateCounts rid tot pas fai) w =
     w\<lparr>testRuns := updateRows rid
        (\<lambda>r. r\<lparr>run_totalTests := tot, run_passedTests := pas, run_failedTests := fai\<rparr>)
        (testRuns w)\<rparr>"
| "store (UpdateFinal rid st tot pas fai dur at summary) w =
     w\<lparr>testRuns := updateRows rid
        (\<lambda>r. r\<lparr>run_status := st, run_totalTests := tot, run_passedTests := pas,
                run_failedTests := fai, run_duration := Some dur, run_completedAt := Some at,
                run_errorSummary :=
                  (case summary of None \<Rightarrow> run_errorSummary r | Some s \<Rightarrow> Some s)\<rparr>)
        (testRuns w)\<rparr>"
| "store (InsertCases rows) w = w\<lparr>testCases := testCases w @ rows\<rparr>"

definition dbError :: "jstring \<Rightarrow> js_error" where
  "dbError msg = \<lparr>message = msg, stdout = [], stderr = []\<rparr>"

definition issue :: "stmt \<Rightarrow> world \<Rightarrow> (js_error + unit) \<times> world" where
  "issue s w =
     (case faults w of
        Some msg # rest \<Rightarrow>
          (Inl (dbError msg), w\<lparr>faults := rest, trace := trace w @ [Statement s False]\<rparr>)
      | _ \<Rightarrow>
          (Inr (), (store s w)\<lparr>faults := tl (faults w), trace := trace w @ [Statement s True]\<rparr>))"

section \<open>The tracker: class \<open>TestRunner\<close>\<close>

record TestRunResult =
  result_status :: run_status
  totalTests :: nat
  passedTests :: nat
  failedTests :: nat
  result_duration :: nat
  tests :: "TestResult list"
  errorSummary :: "jstring option"

text \<open>\<open>!this.testRunId\<close> holds of null and of the number 0.\<close>

definition activeRun :: "world \<Rightarrow> nat option" where
  "activeRun w =
     (case testRunId w of None \<Rightarrow> None | Some rid \<Rightarrow> if rid = 0 then None else Some rid)"

text \<open>
  \<open>startTestRun\<close>. The parameters that have a default in the source (\<open>branch\<close>,
  \<open>totalFiles\<close>) are always given here. The result of a successful insert is the
  identifier of the row that \<open>returning()\<close> hands back.
\<close>

definition startTestRun :: "jstring option \<Rightarrow> jstring \<Rightarrow> nat \<Rightarrow> world \<Rightarrow> (js_error + nat) \<times> world" where
  "startTestRun commitHash branch totalFiles w =
     (let w1 = w\<lparr>startTime := clock w\<rparr>;
          row = \<lparr>run_id = freshId (testRuns w1), run_commitHash = commitHash,
                 run_branch = branch, run_status = Running, run_startedAt = clock w1,
                 run_totalFiles = totalFiles, run_completedFiles = 0,
                 run_currentFile = None, run_currentPhase = Some backend,
                 run_totalTests = 0, run_passedTests = 0, run_failedTests = 0,
                 run_duration = None, run_completedAt = None, run_errorSummary = None\<rparr>
      in case issue (InsertRun row) w1 of
           (Inl e, w2) \<Rightarrow> (Inl e, w2)
         | (Inr u, w2) \<Rightarrow>
             (Inr (run_id row),
              console Log (RunStarted (run_id row)) (w2\<lparr>testRunId := Some (run_id row)\<rparr>)))"

text \<open>
  The closure \<open>retryOperation\<close> of \<open>updateFileProgress\<close>: the loop
  \<open>for (let i = 0; i < attempts; i++)\<close>, entered with \<open>i = 0\<close>. A successful
  statement returns from inside the loop; a failed one is caught there. The closure is
  called with its default of three attempts, and \<open>updateFileProgress\<close> always with
  its parameter \<open>totalFiles\<close>.
\<close>

function retryFileProgress ::
  "nat \<Rightarrow> jstring \<Rightarrow> nat \<Rightarrow> phase \<Rightarrow> nat \<Rightarrow> nat \<Rightarrow> nat \<Rightarrow> world \<Rightarrow> (js_error + unit) \<times> world" where
  "retryFileProgress rid currentFile completedFiles currentPhase totalFiles attempts i w =
     (if i < attempts then
        (case issue (UpdateProgress rid currentFile completedFiles currentPhase totalFiles) w of
           (Inr u, w1) \<Rightarrow>
             (Inr (), console Log (ProgressWritten completedFiles totalFiles currentPhase currentFile) w1)
         | (Inl e, w1) \<Rightarrow>
             if i = attempts - 1 then
               retryFileProgress rid currentFile completedFiles currentPhase totalFiles attempts (i + 1)
                 (console Log (ProgressLocal completedFiles totalFiles currentPhase currentFile)
                    (console Warn (ProgressGaveUp attempts (message e)) w1))
             else
               retryFileProgress rid currentFile completedFiles currentPhase totalFiles attempts (i + 1)
                 (sleep (1000 * (i + 1)) (console Warn (ProgressRetry (i + 1) attempts) w1)))
      else (Inr (), w))"
  by pat_completeness auto
termination
  by (relation "measure (\<lambda>(rid, currentFile, completedFiles, currentPhase, totalFiles, attempts, i, w). attempts - i)")
     auto

declare retryFileProgress.simps [simp del]

definition updateFileProgress :: "jstring \<Rightarrow> nat \<Rightarrow> phase \<Rightarrow> nat \<Rightarrow> world \<Rightarrow> (js_error + unit) \<times> world" where
  "updateFileProgress currentFile completedFiles currentPhase totalFiles w =
     (case activeRun w of
        None \<Rightarrow> (Inr (), console Warn NoRunForProgress w)
      | Some rid \<Rightarrow> retryFileProgress rid currentFile completedFiles currentPhase totalFiles 3 0 w)"

text \<open>The same loop in \<open>updateTestCounts\<close>.\<close>

function retryTestCounts ::
  "nat \<Rightarrow> nat \<Rightarrow> nat \<Rightarrow> nat \<Rightarrow> nat \<Rightarrow> nat \<Rightarrow> world \<Rightarrow> (js_error + unit) \<times> world" where
  "retryTestCounts rid passedN failedN totalN attempts i w =
     (if i < attempts then
        (case issue (UpdateCounts rid totalN passedN failedN) w of
           (Inr u, w1) \<Rightarrow>
             (Inr (), console Log (CountsWritten passedN totalN failedN) w1)
         | (Inl e, w1) \<Rightarrow>
             if i = attempts - 1 then
               retryTestCounts rid passedN failedN totalN attempts (i + 1)
                 (console Warn (CountsGaveUp attempts (message e)) w1)
             else
               retryTestCounts rid passedN failedN totalN attempts (i + 1)
                 (sleep (1000 * (i + 1)) (console Warn (CountsRetry (i + 1) attempts) w1)))
      else (Inr (), w))"
  by pat_completeness auto
termination
  by (relation "measure (\<lambda>(rid, passedN, failedN, totalN, attempts, i, w). attempts - i)")
     auto

declare retryTestCounts.simps [simp del]

definition updateTestCounts :: "nat \<Rightarrow> nat \<Rightarrow> nat \<Rightarrow> world \<Rightarrow> (js_error + unit) \<times> world" where
  "updateTestCounts passedN failedN totalN w =
     (case activeRun w of
        None \<Rightarrow> (Inr (), console Warn NoRunForCounts w)
      | Some rid \<Rightarrow> retryTestCounts rid passedN failedN totalN 3 0 w)"

text \<open>
  \<open>completeTestRun\<close>: one update, then the bulk insert when there are test cases, both
  inside one \<open>try\<close> whose handler prints the error and returns.
\<close>

definition caseRow :: "nat \<Rightarrow> TestResult \<Rightarrow> case_row" where
  "caseRow rid t =
     \<lparr>case_testRunId = rid, case_testSuite = suite t, case_testName = name t,
      case_status = status t, case_duration = duration t, case_errorMessage = error t,
      case_stackTrace = stackTrace t\<rparr>"

definition completeTestRun :: "TestRunResult \<Rightarrow> world \<Rightarrow> (js_error + unit) \<times> world" where
  "completeTestRun result w =
     (case activeRun w of
        None \<Rightarrow> (Inr (), console Warn NoRunForCompletion w)
      | Some rid \<Rightarrow>
          (let duration = clock w - startTime w in
           case issue (UpdateFinal rid (result_status result) (totalTests result)
                         (passedTests result) (failedTests result) duration (clock w)
                         (errorSummary result)) w of
             (Inl e, w1) \<Rightarrow> (Inr (), console Error (CompletionFailed e) w1)
           | (Inr u, w1) \<Rightarrow>
               if tests result \<noteq> [] then
                 (case issue (InsertCases (map (caseRow rid) (tests result))) w1 of
                    (Inl e, w2) \<Rightarrow> (Inr (), console Error (CompletionFailed e) w2)
                  | (Inr u, w2) \<Rightarrow>
                      (Inr (), console Log (RunCompleted (result_status result)
                                  (passedTests result) (totalTests result)) w2))
               else
                 (Inr (), console Log (RunCompleted (result_status result)
                             (passedTests result) (totalTests result)) w1)))"

section \<open>The executor: \<open>runTestSuite\<close>\<close>

text \<open>
  What the executor gets from \<open>execSync\<close>: the output of the \<open>find\<close> command or the
  error it throws, and for each category, by its path pattern, the output of the test
  tool or the error of a failed invocation.
\<close>

record env =
  findOutput :: "js_error + jstring"
  vitest :: "jstring \<Rightarrow> js_error + jstring"

record category =
  cat_pattern :: jstring
  cat_phase :: phase
  cat_name :: jstring

definition testCategories :: "category list" where
  "testCategories =
     [\<lparr>cat_pattern = js ''tests/integration/'', cat_phase = backend, cat_name = js ''Integration Tests''\<rparr>,
      \<lparr>cat_pattern = js ''tests/auth/'', cat_phase = backend, cat_name = js ''Authentication Tests''\<rparr>,
      \<lparr>cat_pattern = js ''tests/storage/'', cat_phase = backend, cat_name = js ''Storage Tests''\<rparr>,
      \<lparr>cat_pattern = js ''tests/api/'', cat_phase = backend, cat_name = js ''API Tests''\<rparr>,
      \<lparr>cat_pattern = js ''tests/components/'', cat_phase = frontend, cat_name = js ''Component Tests''\<rparr>,
      \<lparr>cat_pattern = js ''tests/pages/'', cat_phase = frontend, cat_name = js ''Page Tests''\<rparr>,
      \<lparr>cat_pattern = js ''tests/e2e/'', cat_phase = frontend, cat_name = js ''End-to-End Tests''\<rparr>]"

text \<open>
  The variables of \<open>runTestSuite\<close> that the loop over the categories changes
  (\<open>totalTestsAcc\<close> is the variable \<open>totalTests\<close>). They keep what was assigned
  before an exception, so they travel with the state of the tracker.
\<close>

record locals =
  totalPassed :: nat
  totalFailed :: nat
  totalTestsAcc :: nat
  allTestResults :: "TestResult list"
  completedFiles :: nat

text \<open>
  The statements that the \<open>try\<close> block of a category and its handler share: parse the
  output into a new array, add the counts, append the cases, count the files.
\<close>

definition accumulate :: "jstring \<Rightarrow> nat \<Rightarrow> locals \<Rightarrow> locals" where
  "accumulate output nfiles ls =
     (case parseAndUpdateTestCounts output [] of
        (categoryStats, categoryResults) \<Rightarrow>
          ls\<lparr>totalPassed := totalPassed ls + passed categoryStats,
             totalFailed := totalFailed ls + failed categoryStats,
             totalTestsAcc := totalTestsAcc ls + total categoryStats,
             allTestResults := allTestResults ls @ categoryResults,
             completedFiles := completedFiles ls + nfiles\<rparr>)"

definition reportCategory ::
  "jstring \<Rightarrow> category \<Rightarrow> nat \<Rightarrow> locals \<times> world \<Rightarrow> (js_error + unit) \<times> locals \<times> world" where
  "reportCategory label c totalFiles s =
     (case s of (ls, w) \<Rightarrow>
        (case updateTestCounts (totalPassed ls) (totalFailed ls) (totalTestsAcc ls) w of
           (Inl e, w1) \<Rightarrow> (Inl e, ls, w1)
         | (Inr u, w1) \<Rightarrow>
             (case updateFileProgress label (completedFiles ls) (cat_phase c) totalFiles w1 of
                (Inl e, w2) \<Rightarrow> (Inl e, ls, w2)
              | (Inr u, w2) \<Rightarrow> (Inr (), ls, w2))))"

definition tryCategory ::
  "env \<Rightarrow> category \<Rightarrow> nat \<Rightarrow> nat \<Rightarrow> locals \<times> world \<Rightarrow> (js_error + unit) \<times> locals \<times> world" where
  "tryCategory ev c nfiles totalFiles s =
     (case s of (ls, w) \<Rightarrow>
        (case vitest ev (cat_pattern c) of
           Inl e \<Rightarrow> (Inl e, ls, w)
         | Inr vitestOutput \<Rightarrow>
             reportCategory (js ''Completed '' @ cat_name c) c totalFiles
               (accumulate vitestOutput nfiles ls, w)))"

text \<open>\<open>error.stdout || error.stderr || ''\<close>.\<close>

definition errorOutput :: "js_error \<Rightarrow> jstring" where
  "errorOutput e = (if stdout e \<noteq> [] then stdout e else if stderr e \<noteq> [] then stderr e else [])"

definition catchCategory ::
  "js_error \<Rightarrow> category \<Rightarrow> nat \<Rightarrow> nat \<Rightarrow> locals \<times> world \<Rightarrow> (js_error + unit) \<times> locals \<times> world" where
  "catchCategory e c nfiles totalFiles s =
     (case s of (ls, w) \<Rightarrow>
        reportCategory (js ''Completed '' @ cat_name c @ js '' (with errors)'') c totalFiles
          (accumulate (errorOutput e) nfiles ls, w))"

text \<open>
  One round of the loop. A category without files is skipped by \<open>continue\<close>; the others
  end with the pause of 500 ms.
\<close>

definition runCategory ::
  "env \<Rightarrow> jstring list \<Rightarrow> nat \<Rightarrow> category \<Rightarrow> locals \<times> world \<Rightarrow> (js_error + unit) \<times> locals \<times> world" where
  "runCategory ev allTestFiles totalFiles c s =
     (case s of (ls, w) \<Rightarrow>
        (let categoryFiles = filter (\<lambda>file. startsWith file (cat_pattern c)) allTestFiles in
         if length categoryFiles = 0 then (Inr (), ls, w)
         else
           (case updateFileProgress (cat_name c) (completedFiles ls) (cat_phase c) totalFiles w of
              (Inl e, w1) \<Rightarrow> (Inl e, ls, w1)
            | (Inr u, w1) \<Rightarrow>
                (case (case tryCategory ev c (length categoryFiles) totalFiles (ls, w1) of
                         (Inl e, s1) \<Rightarrow> catchCategory e c (length categoryFiles) totalFiles s1
                       | (Inr u, s1) \<Rightarrow> (Inr (), s1)) of
                   (Inl e, s2) \<Rightarrow> (Inl e, s2)
                 | (Inr u, ls2, w2) \<Rightarrow> (Inr (), ls2, sleep 500 w2)))))"

fun runCategories ::
  "env \<Rightarrow> jstring list \<Rightarrow> nat \<Rightarrow> category list \<Rightarrow> locals \<times> world \<Rightarrow> (js_error + unit) \<times> locals \<times> world" where
  "runCategories ev allTestFiles totalFiles [] s = (Inr (), s)"
| "runCategories ev allTestFiles totalFiles (c # cs) s =
     (case runCategory ev allTestFiles totalFiles c s of
        (Inl e, s1) \<Rightarrow> (Inl e, s1)
      | (Inr u, s1) \<Rightarrow> runCategories ev allTestFiles totalFiles cs s1)"

definition finalResult :: "locals \<Rightarrow> TestRunResult" where
  "finalResult ls =
     \<lparr>result_status = (if totalFailed ls = 0 then Passed else Failed),
      totalTests = totalTestsAcc ls,
      passedTests = totalPassed ls,
      failedTests = totalFailed ls,
      result_duration = 0,
      tests = allTestResults ls,
      errorSummary =
        (if totalFailed ls > 0
         then Some (numberToString (totalFailed ls) @ js '' test(s) failed'')
         else None)\<rparr>"

definition errorResult :: "js_error \<Rightarrow> TestRunResult" where
  "errorResult e =
     \<lparr>result_status = Failed, totalTests = 0, passedTests = 0, failedTests = 0,
      result_duration = 0, tests = [],
      errorSummary = Some (js ''Test execution failed: '' @ message e)\<rparr>"

definition initialLocals :: locals where
  "initialLocals =
     \<lparr>totalPassed = 0, totalFailed = 0, totalTestsAcc = 0, allTestResults = [],
      completedFiles = 0\<rparr>"

text \<open>The list of test files: the output of \<open>find\<close>, trimmed, split, without empty lines.\<close>

definition testFilesOf :: "jstring \<Rightarrow> jstring list" where
  "testFilesOf out = filter (\<lambda>f. f \<noteq> []) (split (trim out) [10])"

text \<open>
  The \<open>try\<close> block of \<open>runTestSuite\<close> up to the object \<open>finalResult\<close>: what it builds,
  or the exception that leaves the block. The timer that refreshes the duration every
  five seconds runs beside the loop and writes no column a statement of the loop
  writes; it and the lines the executor itself prints are left out.
\<close>

definition collectResults :: "env \<Rightarrow> world \<Rightarrow> (js_error + TestRunResult) \<times> world" where
  "collectResults ev w =
     (case findOutput ev of
        Inl e \<Rightarrow> (Inl e, w)
      | Inr out \<Rightarrow>
          (let allTestFiles = testFilesOf out; totalFiles = length allTestFiles in
           case startTestRun (Some (js ''HEAD'')) (js ''main'') totalFiles w of
             (Inl e, w1) \<Rightarrow> (Inl e, w1)
           | (Inr newRunId, w1) \<Rightarrow>
               (case runCategories ev allTestFiles totalFiles testCategories (initialLocals, w1) of
                  (Inl e, ls, w2) \<Rightarrow> (Inl e, w2)
                | (Inr u, ls, w2) \<Rightarrow> (Inr (finalResult ls), w2))))"

text \<open>
  \<open>runTestSuite\<close>: the \<open>try\<close> block ends with \<open>completeTestRun(finalResult)\<close>; the
  handler calls \<open>completeTestRun(errorResult)\<close> and throws the error again.
\<close>

definition runTestSuite :: "env \<Rightarrow> world \<Rightarrow> (js_error + unit) \<times> world" where
  "runTestSuite ev w =
     (case (case collectResults ev w of
              (Inl e, w1) \<Rightarrow> (Inl e, w1)
            | (Inr result, w1) \<Rightarrow> completeTestRun result w1) of
        (Inr u, w2) \<Rightarrow> (Inr (), w2)
      | (Inl e, w2) \<Rightarrow>
          (case completeTestRun (errorResult e) w2 of
             (Inl e', w3) \<Rightarrow> (Inl e', w3)
           | (Inr u, w3) \<Rightarrow> (Inl e, w3)))"

section \<open>Observing a run\<close>

text \<open>
  The constructor of \<open>TestRunner\<close>: no active run, start time 0, on a store with the
  given tables and schedule of failures, at the given time.
\<close>

definition TestRunner :: "run_row list \<Rightarrow> case_row list \<Rightarrow> jstring option list \<Rightarrow> int \<Rightarrow> world" where
  "TestRunner runs cases schedule now =
     \<lparr>testRunId = None, startTime = 0, testRuns = runs, testCases = cases,
      faults = schedule, clock = now, trace = []\<rparr>"

text \<open>What an operation adds to the trace when it takes \<open>w\<close> to \<open>w'\<close>.\<close>

definition emitted :: "world \<Rightarrow> world \<Rightarrow> event list" where
  "emitted w w' = drop (length (trace w)) (trace w')"

fun isStatement :: "event \<Rightarrow> bool" where
  "isStatement (Statement s ok) = True"
| "isStatement e = False"

fun isConsole :: "event \<Rightarrow> bool" where
  "isConsole (Console l n) = True"
| "isConsole e = False"

fun isWarning :: "event \<Rightarrow> bool" where
  "isWarning (Console l n) = (l = Warn)"
| "isWarning e = False"

text \<open>
  The next \<open>n\<close> statements all succeed; and the number of statements, among the next
  \<open>n\<close>, that fail before the first one that succeeds.
\<close>

definition succeeds :: "nat \<Rightarrow> world \<Rightarrow> bool" where
  "succeeds n w = list_all (\<lambda>f. f = None) (take n (faults w))"

definition failuresAhead :: "nat \<Rightarrow> world \<Rightarrow> nat" where
  "failuresAhead n w = length (takeWhile (\<lambda>f. f \<noteq> None) (take n (faults w)))"

text \<open>An event that, when it is a statement, is the statement \<open>s\<close>.\<close>

definition onlyStatement :: "stmt \<Rightarrow> event \<Rightarrow> bool" where
  "onlyStatement s e = (case e of Statement s' ok \<Rightarrow> s' = s | _ \<Rightarrow> True)"

text \<open>A tracker with the active run 1 whose next three statements fail.\<close>

definition failingRunner :: world where
  "failingRunner =
     \<lparr>testRunId = Some 1, startTime = 0, testRuns = [], testCases = [],
      faults = [Some (js ''down''), Some (js ''down''), Some (js ''down'')], clock = 0,
      trace = []\<rparr>"

text \<open>The statements \<open>completeTestRun\<close> sends for a result, and what its update leaves in a row.\<close>

definition finalUpdate :: "nat \<Rightarrow> TestRunResult \<Rightarrow> world \<Rightarrow> stmt" where
  "finalUpdate rid result w =
     UpdateFinal rid (result_status result) (totalTests result) (passedTests result)
       (failedTests result) (clock w - startTime w) (clock w) (errorSummary result)"

definition caseInsert :: "nat \<Rightarrow> TestRunResult \<Rightarrow> stmt" where
  "caseInsert rid result = InsertCases (map (caseRow rid) (tests result))"

definition finalized :: "TestRunResult \<Rightarrow> world \<Rightarrow> run_row \<Rightarrow> bool" where
  "finalized result w r =
     (run_status r = result_status result \<and> run_totalTests r = totalTests result
      \<and> run_passedTests r = passedTests result \<and> run_failedTests r = failedTests result
      \<and> run_duration r = Some (clock w - startTime w) \<and> run_completedAt r = Some (clock w)
      \<and> (errorSummary result \<noteq> None \<longrightarrow> run_errorSummary r = errorSummary result))"

text \<open>A tracker in the middle of run 1, and a result with one test case.\<close>

definition sampleRow :: run_row where
  "sampleRow =
     \<lparr>run_id = 1, run_commitHash = Some (js ''HEAD''), run_branch = js ''main'',
      run_status = Running, run_startedAt = 0, run_totalFiles = 1, run_completedFiles = 1,
      run_currentFile = None, run_currentPhase = Some backend, run_totalTests = 1,
      run_passedTests = 1, run_failedTests = 0, run_duration = None, run_completedAt = None,
      run_errorSummary = None\<rparr>"

definition runningTracker :: "jstring option list \<Rightarrow> world" where
  "runningTracker schedule =
     \<lparr>testRunId = Some 1, startTime = 0, testRuns = [sampleRow], testCases = [],
      faults = schedule, clock = 60, trace = []\<rparr>"

definition sampleResult :: TestRunResult where
  "sampleResult =
     \<lparr>result_status = Passed, totalTests = 1, passedTests = 1, failedTests = 0,
      result_duration = 0,
      tests = [\<lparr>suite = js ''LoginSuite'', name = js ''renders'', status = TestPassed,
                duration = 42, error = None, stackTrace = None\<rparr>],
      errorSummary = None\<rparr>"

text \<open>An executor whose \<open>find\<close> command fails.\<close>

definition brokenFind :: env where
  "brokenFind =
     \<lparr>findOutput = Inl \<lparr>message = js ''Command failed: find'', stdout = [], stderr = []\<rparr>,
      vitest = (\<lambda>p. Inr [])\<rparr>"

text \<open>The number of lines of an output that begin, once trimmed, with a marker.\<close>

definition countLines :: "nat \<Rightarrow> jstring \<Rightarrow> nat" where
  "countLines m output = length (filter (\<lambda>line. startsWith (trim line) [m]) (split output [10]))"

text \<open>
  What a statement writes is consistent when the passed and failed tests together are at
  most the total and the completed files are at most the total files, for those of the
  two pairs it writes; a row is consistent when both hold of it.
\<close>

fun consistent :: "stmt \<Rightarrow> bool" where
  "consistent (InsertRun row) =
     (run_passedTests row + run_failedTests row \<le> run_totalTests row
      \<and> run_completedFiles row \<le> run_totalFiles row)"
| "consistent (UpdateProgress rid file completed ph files) = (completed \<le> files)"
| "consistent (UpdateCounts rid tot pas fai) = (pas + fai \<le> tot)"
| "consistent (UpdateFinal rid st tot pas fai dur at summary) = (pas + fai \<le> tot)"
| "consistent (InsertCases rows) = True"

fun consistentEvent :: "event \<Rightarrow> bool" where
  "consistentEvent (Statement s ok) = consistent s"
| "consistentEvent e = True"

definition rowConsistent :: "run_row \<Rightarrow> bool" where
  "rowConsistent r =
     (run_passedTests r + run_failedTests r \<le> run_totalTests r
      \<and> run_completedFiles r \<le> run_totalFiles r)"

text \<open>
  The tables after the statements of a trace that succeeded, each applied in turn to
  the tables of \<open>w\<close>: \<open>persisted (take n evs) w\<close> is what is persisted after the
  first \<open>n\<close> events.
\<close>

fun persist :: "world \<Rightarrow> event \<Rightarrow> world" where
  "persist w (Statement s ok) = (if ok then store s w else w)"
| "persist w e = w"

definition persisted :: "event list \<Rightarrow> world \<Rightarrow> world" where
  "persisted evs w = foldl persist w evs"

text \<open>
  \<open>w'\<close> has the trace of \<open>w\<close> and, after it, only events that satisfy \<open>P\<close>, and
  its table of runs is the one these events leave.
\<close>

definition advances :: "(event \<Rightarrow> bool) \<Rightarrow> world \<Rightarrow> world \<Rightarrow> bool" where
  "advances P w w' =
     (\<exists>evs. trace w' = trace w @ evs \<and> list_all P evs
            \<and> testRuns w' = testRuns (persisted evs w))"

text \<open>
  The loop over the categories in terms of its inputs: the files of a category, the
  categories that have any (the others are skipped), the output that is parsed for a
  category (that of the tool, or the output carried by its error), its counts and its
  test cases, and the variables after one round.
\<close>

definition categoryFiles :: "jstring list \<Rightarrow> category \<Rightarrow> jstring list" where
  "categoryFiles allTestFiles c = filter (\<lambda>file. startsWith file (cat_pattern c)) allTestFiles"

definition processed :: "jstring list \<Rightarrow> category list" where
  "processed allTestFiles = filter (\<lambda>c. categoryFiles allTestFiles c \<noteq> []) testCategories"

definition categoryOutput :: "env \<Rightarrow> category \<Rightarrow> jstring" where
  "categoryOutput ev c =
     (case vitest ev (cat_pattern c) of Inr out \<Rightarrow> out | Inl e \<Rightarrow> errorOutput e)"

definition categoryStats :: "env \<Rightarrow> category \<Rightarrow> stats" where
  "categoryStats ev c = fst (parseAndUpdateTestCounts (categoryOutput ev c) [])"

definition categoryCases :: "env \<Rightarrow> category \<Rightarrow> TestResult list" where
  "categoryCases ev c = snd (parseAndUpdateTestCounts (categoryOutput ev c) [])"

definition afterCategory :: "env \<Rightarrow> jstring list \<Rightarrow> locals \<Rightarrow> category \<Rightarrow> locals" where
  "afterCategory ev allTestFiles ls c =
     (if categoryFiles allTestFiles c = [] then ls
      else accumulate (categoryOutput ev c) (length (categoryFiles allTestFiles c)) ls)"

text \<open>
  Two executors. The first is the scenario of the specification: three integration
  files whose run prints two pass lines, no file for the categories in between, and one
  API file whose run fails after printing one fail line. The second has one API file
  whose run prints one skip line.
\<close>

definition scenario :: env where
  "scenario =
     \<lparr>findOutput = Inr (js ''tests/integration/a.test.ts'' @ [10] @ js ''tests/integration/b.test.ts''
                         @ [10] @ js ''tests/integration/c.test.ts'' @ [10] @ js ''tests/api/d.test.ts''
                         @ [10]),
      vitest = (\<lambda>p. if p = js ''tests/integration/''
                     then Inr ([passMarker] @ js '' A > x 1ms'' @ [10] @ [passMarker] @ js '' A > y 2ms'')
                     else Inl \<lparr>message = js ''Command failed'',
                               stdout = [failMarker] @ js '' B > z 3ms'', stderr = []\<rparr>)\<rparr>"

definition skipScenario :: env where
  "skipScenario =
     \<lparr>findOutput = Inr (js ''tests/api/a.test.ts''),
      vitest = (\<lambda>p. Inr ([skipMarker] @ js '' Suite > pending''))\<rparr>"

section \<open>The store and the retry loops\<close>

lemma schedule_cases:
  obtains "fs = []"
  | rest where "fs = None # rest"
  | m where "fs = [Some m]"
  | m rest where "fs = Some m # None # rest"
  | m1 m2 where "fs = [Some m1, Some m2]"
  | m1 m2 rest where "fs = Some m1 # Some m2 # None # rest"
  | m1 m2 m3 rest where "fs = Some m1 # Some m2 # Some m3 # rest"
proof (cases fs)
  case Nil then show ?thesis using that by blast
next
  case (Cons a l1)
  show ?thesis
  proof (cases a)
    case None then show ?thesis using Cons that by blast
  next
    case (Some m1)
    show ?thesis
    proof (cases l1)
      case Nil then show ?thesis using Cons Some that by blast
    next
      case c2: (Cons b l2)
      show ?thesis
      proof (cases b)
        case None then show ?thesis using Cons Some c2 that by blast
      next
        case s2: (Some m2)
        show ?thesis
        proof (cases l2)
          case Nil then show ?thesis using Cons Some c2 s2 that by blast
        next
          case c3: (Cons c l3)
          show ?thesis
            using Cons Some c2 s2 c3 that by (cases c) blast+
        qed
      qed
    qed
  qed
qed

lemma store_frame [simp]:
  "testRunId (store s w) = testRunId w"
  "startTime (store s w) = startTime w"
  "clock (store s w) = clock w"
  "faults (store s w) = faults w"
  "trace (store s w) = trace w"
  by (cases s; simp)+

lemma freshId_above: "r \<in> set rows \<Longrightarrow> run_id r < freshId rows"
  unfolding freshId_def by (induction rows) auto

lemma freshId_new: "freshId rows \<notin> run_id ` set rows"
  using freshId_above by fastforce

lemma succeeds_Suc_issue:
  "succeeds (Suc n) w \<Longrightarrow>
     issue s w = (Inr (), (store s w)\<lparr>faults := tl (faults w), trace := trace w @ [Statement s True]\<rparr>)"
  by (cases "faults w" rule: schedule_cases) (simp_all add: succeeds_def issue_def)

lemma fails_issue:
  "\<not> succeeds (Suc 0) w \<Longrightarrow>
     \<exists>msg. issue s w = (Inl (dbError msg), w\<lparr>faults := tl (faults w), trace := trace w @ [Statement s False]\<rparr>)"
  by (cases "faults w" rule: schedule_cases) (auto simp add: succeeds_def issue_def)

lemmas retry_unfold = retryTestCounts.simps retryFileProgress.simps issue_def console_def sleep_def

lemma retryTestCounts_shape:
  "fst (retryTestCounts rid p f t 3 0 w) = Inr ()
   \<and> length (filter isStatement (emitted w (snd (retryTestCounts rid p f t 3 0 w))))
       = min 3 (Suc (failuresAhead 3 w))
   \<and> filter (\<lambda>e. \<not> isConsole e) (emitted w (snd (retryTestCounts rid p f t 3 0 w)))
       = concat (map (\<lambda>n. [Statement (UpdateCounts rid t p f) False, Timeout (1000 * n)])
                   [1 ..< Suc (min (failuresAhead 3 w) 2)])
         @ [Statement (UpdateCounts rid t p f) (failuresAhead 3 w < 3)]
   \<and> length (filter isWarning (emitted w (snd (retryTestCounts rid p f t 3 0 w)))) = failuresAhead 3 w
   \<and> (failuresAhead 3 w = 3 \<longrightarrow>
        (\<exists>msg. Console Warn (CountsGaveUp 3 msg)
                 \<in> set (emitted w (snd (retryTestCounts rid p f t 3 0 w)))))"
  by (cases "faults w" rule: schedule_cases)
     (simp_all add: retry_unfold failuresAhead_def emitted_def)

lemma retryFileProgress_shape:
  "fst (retryFileProgress rid cf c ph tf 3 0 w) = Inr ()
   \<and> length (filter isStatement (emitted w (snd (retryFileProgress rid cf c ph tf 3 0 w))))
       = min 3 (Suc (failuresAhead 3 w))
   \<and> filter (\<lambda>e. \<not> isConsole e) (emitted w (snd (retryFileProgress rid cf c ph tf 3 0 w)))
       = concat (map (\<lambda>n. [Statement (UpdateProgress rid cf c ph tf) False, Timeout (1000 * n)])
                   [1 ..< Suc (min (failuresAhead 3 w) 2)])
         @ [Statement (UpdateProgress rid cf c ph tf) (failuresAhead 3 w < 3)]
   \<and> length (filter isWarning (emitted w (snd (retryFileProgress rid cf c ph tf 3 0 w)))) = failuresAhead 3 w
   \<and> (failuresAhead 3 w = 3 \<longrightarrow>
        (\<exists>msg. Console Warn (ProgressGaveUp 3 msg)
                 \<in> set (emitted w (snd (retryFileProgress rid cf c ph tf 3 0 w)))))"
  by (cases "faults w" rule: schedule_cases)
     (simp_all add: retry_unfold failuresAhead_def emitted_def)

lemma retryTestCounts_frame:
  "fst (retryTestCounts rid p f t 3 0 w) = Inr ()
   \<and> testRunId (snd (retryTestCounts rid p f t 3 0 w)) = testRunId w
   \<and> startTime (snd (retryTestCounts rid p f t 3 0 w)) = startTime w
   \<and> testCases (snd (retryTestCounts rid p f t 3 0 w)) = testCases w"
  by (cases "faults w" rule: schedule_cases)
     (simp_all add: retry_unfold)

lemma retryFileProgress_frame:
  "fst (retryFileProgress rid cf c ph tf 3 0 w) = Inr ()
   \<and> testRunId (snd (retryFileProgress rid cf c ph tf 3 0 w)) = testRunId w
   \<and> startTime (snd (retryFileProgress rid cf c ph tf 3 0 w)) = startTime w
   \<and> testCases (snd (retryFileProgress rid cf c ph tf 3 0 w)) = testCases w"
  by (cases "faults w" rule: schedule_cases)
     (simp_all add: retry_unfold)

section \<open>Progress updates without an active run\<close>

text \<open>
  C9. When the tracker has no active run, \<open>updateFileProgress\<close> and
  \<open>updateTestCounts\<close> return normally and leave everything as it was except for one
  warning on the console: no statement reaches the store.
\<close>

theorem update_without_run:
  assumes "testRunId w = None"
  shows "updateFileProgress currentFile completed ph files w
           = (Inr (), w\<lparr>trace := trace w @ [Console Warn NoRunForProgress]\<rparr>)
       \<and> updateTestCounts p f t w
           = (Inr (), w\<lparr>trace := trace w @ [Console Warn NoRunForCounts]\<rparr>)"
  using assms by (simp add: updateFileProgress_def updateTestCounts_def activeRun_def console_def)

theorem update_without_run_witness:
  "testRunId (TestRunner [] [] [] 0) = None
   \<and> fst (updateFileProgress (js ''API Tests'') 0 backend 4 (TestRunner [] [] [] 0)) = Inr ()
   \<and> trace (snd (updateTestCounts 1 0 1 (TestRunner [] [] [] 0))) = [Console Warn NoRunForCounts]"
  using update_without_run [of "TestRunner [] [] [] 0" "js ''API Tests''" 0 backend 4 1 0 1]
  by (simp add: TestRunner_def)

section \<open>Bounded retry\<close>

text \<open>
  C3. With an active run, \<open>updateFileProgress\<close> and \<open>updateTestCounts\<close> return
  normally whatever the store does. Where \<open>k\<close> of the next three statements fail before
  one succeeds, they send \<open>min 3 (k + 1)\<close> statements, at most three; the failed attempt
  number \<open>n\<close>, for \<open>n\<close> = 1 and 2, is followed by a timeout of \<open>1000 * n\<close> ms and then the
  next attempt; the third failure is followed by no timeout and no attempt, and a warning
  that the update was given up is printed. Each failure prints one warning.
\<close>

theorem retry_three_attempts:
  assumes "activeRun w = Some rid"
  shows "fst (updateFileProgress cf c ph tf w) = Inr ()
    \<and> fst (updateTestCounts p f t w) = Inr ()
    \<and> length (filter isStatement (emitted w (snd (updateFileProgress cf c ph tf w)))) \<le> 3
    \<and> length (filter isStatement (emitted w (snd (updateTestCounts p f t w)))) \<le> 3
    \<and> filter (\<lambda>e. \<not> isConsole e) (emitted w (snd (updateFileProgress cf c ph tf w)))
        = concat (map (\<lambda>n. [Statement (UpdateProgress rid cf c ph tf) False, Timeout (1000 * n)])
                    [1 ..< Suc (min (failuresAhead 3 w) 2)])
          @ [Statement (UpdateProgress rid cf c ph tf) (failuresAhead 3 w < 3)]
    \<and> filter (\<lambda>e. \<not> isConsole e) (emitted w (snd (updateTestCounts p f t w)))
        = concat (map (\<lambda>n. [Statement (UpdateCounts rid t p f) False, Timeout (1000 * n)])
                    [1 ..< Suc (min (failuresAhead 3 w) 2)])
          @ [Statement (UpdateCounts rid t p f) (failuresAhead 3 w < 3)]
    \<and> length (filter isWarning (emitted w (snd (updateFileProgress cf c ph tf w)))) = failuresAhead 3 w
    \<and> length (filter isWarning (emitted w (snd (updateTestCounts p f t w)))) = failuresAhead 3 w
    \<and> (failuresAhead 3 w = 3 \<longrightarrow>
         (\<exists>msg. Console Warn (ProgressGaveUp 3 msg)
                  \<in> set (emitted w (snd (updateFileProgress cf c ph tf w))))
       \<and> (\<exists>msg. Console Warn (CountsGaveUp 3 msg)
                  \<in> set (emitted w (snd (updateTestCounts p f t w)))))"
  using assms retryFileProgress_shape [of rid cf c ph tf w] retryTestCounts_shape [of rid p f t w]
  by (simp add: updateFileProgress_def updateTestCounts_def)

theorem retry_three_attempts_witness:
  "activeRun failingRunner = Some 1 \<and> failuresAhead 3 failingRunner = 3
   \<and> fst (updateTestCounts 2 1 3 failingRunner) = Inr ()
   \<and> filter (\<lambda>e. \<not> isConsole e) (emitted failingRunner (snd (updateTestCounts 2 1 3 failingRunner)))
       = [Statement (UpdateCounts 1 3 2 1) False, Timeout 1000,
          Statement (UpdateCounts 1 3 2 1) False, Timeout 2000,
          Statement (UpdateCounts 1 3 2 1) False]
   \<and> (\<exists>msg. Console Warn (CountsGaveUp 3 msg)
              \<in> set (emitted failingRunner (snd (updateTestCounts 2 1 3 failingRunner))))"
proof -
  have a: "activeRun failingRunner = Some 1"
    by (simp add: failingRunner_def activeRun_def)
  have k: "failuresAhead 3 failingRunner = 3"
    by (simp add: failingRunner_def failuresAhead_def)
  show ?thesis
    using a k retry_three_attempts [OF a, of "js ''API Tests''" 0 backend 4 2 1 3]
    by (simp add: upt_rec)
qed

section \<open>Starting a run\<close>

text \<open>
  C5, as the code has it. When the insert succeeds, \<open>startTestRun\<close> returns an identifier
  that no row had before, makes it the active run, and has sent exactly one statement,
  the insert of one row: status running, \<open>startedAt\<close> the current time, the three test
  counters and \<open>completedFiles\<close> zero, \<open>totalFiles\<close> the argument, \<open>currentFile\<close> null,
  and \<open>currentPhase\<close> set to \<open>backend\<close>.
\<close>

theorem startTestRun_row:
  assumes "succeeds 1 w"
  shows "fst (startTestRun commitHash branch totalFiles w) = Inr (freshId (testRuns w))
    \<and> testRunId (snd (startTestRun commitHash branch totalFiles w)) = Some (freshId (testRuns w))
    \<and> activeRun (snd (startTestRun commitHash branch totalFiles w)) = Some (freshId (testRuns w))
    \<and> freshId (testRuns w) \<notin> run_id ` set (testRuns w)
    \<and> (\<exists>row. testRuns (snd (startTestRun commitHash branch totalFiles w)) = testRuns w @ [row]
          \<and> filter isStatement (emitted w (snd (startTestRun commitHash branch totalFiles w)))
              = [Statement (InsertRun row) True]
          \<and> run_id row = freshId (testRuns w)
          \<and> run_status row = Running \<and> run_startedAt row = clock w
          \<and> run_totalTests row = 0 \<and> run_passedTests row = 0 \<and> run_failedTests row = 0
          \<and> run_completedFiles row = 0 \<and> run_totalFiles row = totalFiles
          \<and> run_currentFile row = None \<and> run_currentPhase row = Some backend)"
proof -
  have ok: "succeeds (Suc 0) (w\<lparr>startTime := clock w\<rparr>)"
    using assms by (simp add: succeeds_def)
  have pos: "freshId (testRuns w) \<noteq> 0"
    by (simp add: freshId_def)
  show ?thesis
    using freshId_new [of "testRuns w"] pos
    by (simp add: startTestRun_def Let_def succeeds_Suc_issue [OF ok] console_def emitted_def
        activeRun_def)
qed

theorem startTestRun_row_witness:
  "succeeds 1 (TestRunner [] [] [] 0)
   \<and> fst (startTestRun None (js ''main'') 7 (TestRunner [] [] [] 0)) = Inr 1"
  using startTestRun_row [of "TestRunner [] [] [] 0" None "js ''main''" 7]
  by (simp add: TestRunner_def succeeds_def freshId_def)

text \<open>
  The row of a run started with seven files on an empty store: its phase is set, and
  its \<open>totalFiles\<close> is not zero.
\<close>

theorem start_phase_counterexample:
  "map run_currentPhase (testRuns (snd (startTestRun None (js ''main'') 7 (TestRunner [] [] [] 0))))
     = [Some backend]
   \<and> map run_totalFiles (testRuns (snd (startTestRun None (js ''main'') 7 (TestRunner [] [] [] 0))))
     = [7]"
  by (simp add: startTestRun_def TestRunner_def issue_def console_def freshId_def Let_def)

section \<open>Finishing a run\<close>

lemma schedule2_cases:
  obtains "fs = []"
  | "fs = [None]"
  | rest where "fs = None # None # rest"
  | m rest where "fs = None # Some m # rest"
  | m rest where "fs = Some m # rest"
proof (cases fs)
  case Nil then show ?thesis using that by blast
next
  case (Cons a l1)
  show ?thesis
  proof (cases a)
    case (Some m) then show ?thesis using Cons that by blast
  next
    case None
    show ?thesis
    proof (cases l1)
      case Nil then show ?thesis using Cons None that by blast
    next
      case c2: (Cons b l2)
      show ?thesis using Cons None c2 that by (cases b) blast+
    qed
  qed
qed

lemma store_tables [simp]:
  "testCases (store (finalUpdate rid result w) w0) = testCases w0"
  "testCases (store (caseInsert rid result) w0) = testCases w0 @ map (caseRow rid) (tests result)"
  "testRuns (store (caseInsert rid result) w0) = testRuns w0"
  by (simp_all add: finalUpdate_def caseInsert_def)



lemma updateRows_hit:
  assumes "r \<in> set (updateRows rid g rows)" and "run_id r = rid" and "\<And>r0. run_id (g r0) = run_id r0"
  shows "\<exists>r0. r = g r0"
proof -
  from assms(1) have "r \<in> (\<lambda>r0. if run_id r0 = rid then g r0 else r0) ` set rows"
    unfolding updateRows_def by simp
  then obtain r0 where r0: "r = (if run_id r0 = rid then g r0 else r0)"
    by (rule imageE)
  show ?thesis
  proof (cases "run_id r0 = rid")
    case True
    with r0 show ?thesis by auto
  next
    case False
    with r0 assms(2) show ?thesis by simp
  qed
qed

lemma finalized_store:
  assumes "r \<in> set (testRuns (store (finalUpdate rid result w) w0))" and "run_id r = rid"
  shows "finalized result w r"
proof -
  let ?g = "\<lambda>r. r\<lparr>run_status := result_status result, run_totalTests := totalTests result,
                run_passedTests := passedTests result, run_failedTests := failedTests result,
                run_duration := Some (clock w - startTime w), run_completedAt := Some (clock w),
                run_errorSummary :=
                  (case errorSummary result of None \<Rightarrow> run_errorSummary r | Some s \<Rightarrow> Some s)\<rparr>"
  have "r \<in> set (updateRows rid ?g (testRuns w0))"
    using assms(1) by (simp add: finalUpdate_def)
  then obtain r0 where "r = ?g r0"
    using updateRows_hit [of r rid ?g "testRuns w0"] assms(2) by auto
  then show ?thesis
    by (cases "errorSummary result") (simp_all add: finalized_def)
qed

lemma complete_update_fails:
  assumes "activeRun w = Some rid" and "faults w = Some m # rest"
  shows "completeTestRun result w =
     (Inr (), w\<lparr>faults := rest,
                trace := trace w @ [Statement (finalUpdate rid result w) False,
                                    Console Error (CompletionFailed (dbError m))]\<rparr>)"
  using assms by (simp add: completeTestRun_def Let_def issue_def console_def finalUpdate_def)


lemma complete_without_tests:
  assumes "activeRun w = Some rid" and "succeeds (Suc 0) w" and "tests result = []"
  shows "completeTestRun result w =
     (Inr (), (store (finalUpdate rid result w) w)
                \<lparr>faults := tl (faults w),
                 trace := trace w @ [Statement (finalUpdate rid result w) True,
                   Console Log (RunCompleted (result_status result) (passedTests result)
                                  (totalTests result))]\<rparr>)"
  using assms(1,3) succeeds_Suc_issue [OF assms(2), of "finalUpdate rid result w"]
  by (simp add: completeTestRun_def Let_def console_def finalUpdate_def)


lemma complete_with_tests:
  assumes "activeRun w = Some rid" and "succeeds (Suc (Suc 0)) w" and "tests result \<noteq> []"
  shows "completeTestRun result w =
     (Inr (), (store (caseInsert rid result) (store (finalUpdate rid result w) w))
                \<lparr>faults := tl (tl (faults w)),
                 trace := trace w @ [Statement (finalUpdate rid result w) True,
                   Statement (caseInsert rid result) True,
                   Console Log (RunCompleted (result_status result) (passedTests result)
                                  (totalTests result))]\<rparr>)"
  using assms
  by (cases "faults w" rule: schedule2_cases)
     (simp_all add: completeTestRun_def Let_def console_def finalUpdate_def caseInsert_def
        issue_def succeeds_def)


lemma complete_insert_fails:
  assumes "activeRun w = Some rid" and "faults w = None # Some m # rest" and "tests result \<noteq> []"
  shows "completeTestRun result w =
     (Inr (), (store (finalUpdate rid result w) w)
                \<lparr>faults := rest,
                 trace := trace w @ [Statement (finalUpdate rid result w) True,
                   Statement (caseInsert rid result) False,
                   Console Error (CompletionFailed (dbError m))]\<rparr>)"
  using assms
  by (simp add: completeTestRun_def Let_def console_def finalUpdate_def caseInsert_def issue_def)




text \<open>
  C7, as the code has it. With an active run \<open>completeTestRun\<close> always returns
  normally and first sends one update with the status, the counters, the duration
  \<open>now - startTime\<close>, \<open>completedAt\<close> and the error summary.
  \<^item> When the update fails, nothing else is sent, both tables are as before (the run has
    no terminal write) and the error is printed.
  \<^item> When it succeeds, the rows of the run hold the values of the result; with no test
    cases nothing else is sent.
  \<^item> With test cases, one bulk insert follows, of one row for each entry. When it
    succeeds the rows are in the table; when it fails no case is stored, the error is
    printed, nothing is retried, and the terminal update stays written.
\<close>

theorem completeTestRun_effects:
  assumes "activeRun w = Some rid"
  shows "fst (completeTestRun result w) = Inr ()
    \<and> (\<not> succeeds 1 w \<longrightarrow>
         filter isStatement (emitted w (snd (completeTestRun result w)))
           = [Statement (finalUpdate rid result w) False]
         \<and> testRuns (snd (completeTestRun result w)) = testRuns w
         \<and> testCases (snd (completeTestRun result w)) = testCases w
         \<and> (\<exists>e. last (trace (snd (completeTestRun result w))) = Console Error (CompletionFailed e)))
    \<and> (succeeds 1 w \<longrightarrow>
         testRuns (snd (completeTestRun result w)) = testRuns (store (finalUpdate rid result w) w)
         \<and> (\<forall>r \<in> set (testRuns (snd (completeTestRun result w))).
               run_id r = rid \<longrightarrow> finalized result w r))
    \<and> (succeeds 1 w \<and> tests result = [] \<longrightarrow>
         filter isStatement (emitted w (snd (completeTestRun result w)))
           = [Statement (finalUpdate rid result w) True]
         \<and> testCases (snd (completeTestRun result w)) = testCases w)
    \<and> (succeeds 2 w \<and> tests result \<noteq> [] \<longrightarrow>
         filter isStatement (emitted w (snd (completeTestRun result w)))
           = [Statement (finalUpdate rid result w) True, Statement (caseInsert rid result) True]
         \<and> testCases (snd (completeTestRun result w))
           = testCases w @ map (caseRow rid) (tests result))
    \<and> (succeeds 1 w \<and> \<not> succeeds 2 w \<and> tests result \<noteq> [] \<longrightarrow>
         filter isStatement (emitted w (snd (completeTestRun result w)))
           = [Statement (finalUpdate rid result w) True, Statement (caseInsert rid result) False]
         \<and> testCases (snd (completeTestRun result w)) = testCases w
         \<and> (\<exists>e. last (trace (snd (completeTestRun result w))) = Console Error (CompletionFailed e)))"
proof -
  have fin: "\<forall>r \<in> set (testRuns (store (finalUpdate rid result w) w)).
      run_id r = rid \<longrightarrow> finalized result w r"
    using finalized_store by blast
  show ?thesis
  proof (cases "tests result = []")
  case True
  show ?thesis
  proof (cases "succeeds (Suc 0) w")
    case ok: True
    show ?thesis
      using True ok fin
      by (simp add: complete_without_tests [OF assms ok True] emitted_def caseInsert_def)
  next
    case False
    then obtain m rest where "faults w = Some m # rest"
      by (cases "faults w" rule: schedule2_cases) (simp_all add: succeeds_def)
    then show ?thesis
      using True False
      by (simp add: complete_update_fails [OF assms] emitted_def)
  qed
next
  case nonempty: False
  show ?thesis
  proof (cases "faults w" rule: schedule2_cases)
    case 1
    then have ok: "succeeds (Suc (Suc 0)) w" by (simp add: succeeds_def)
    show ?thesis
      using 1 nonempty fin
      by (simp add: complete_with_tests [OF assms ok nonempty] emitted_def caseInsert_def
          succeeds_def)
  next
    case 2
    then have ok: "succeeds (Suc (Suc 0)) w" by (simp add: succeeds_def)
    show ?thesis
      using 2 nonempty fin
      by (simp add: complete_with_tests [OF assms ok nonempty] emitted_def caseInsert_def
          succeeds_def)
  next
    case (3 rest)
    then have ok: "succeeds (Suc (Suc 0)) w" by (simp add: succeeds_def)
    show ?thesis
      using 3 nonempty fin
      by (simp add: complete_with_tests [OF assms ok nonempty] emitted_def caseInsert_def
          succeeds_def)
  next
    case (4 m rest)
    show ?thesis
      using 4 nonempty fin
      by (simp add: complete_insert_fails [OF assms 4 nonempty] emitted_def succeeds_def)
  next
    case (5 m rest)
    show ?thesis
      using 5 nonempty
      by (simp add: complete_update_fails [OF assms 5] emitted_def succeeds_def)
  qed
qed
qed


text \<open>
  A failure of persistence that leaves the terminal write in place: the update succeeds,
  the bulk insert fails. The run is marked passed, no test case is stored, and the last
  line printed is the error.
\<close>

theorem insert_failure_counterexample:
  "map run_status (testRuns (snd (completeTestRun sampleResult (runningTracker [None, Some (js ''down'')]))))
     = [Passed]
   \<and> testCases (snd (completeTestRun sampleResult (runningTracker [None, Some (js ''down'')]))) = []
   \<and> last (trace (snd (completeTestRun sampleResult (runningTracker [None, Some (js ''down'')]))))
     = Console Error (CompletionFailed (dbError (js ''down'')))"
  by (simp add: completeTestRun_def Let_def issue_def console_def runningTracker_def sampleResult_def
      sampleRow_def activeRun_def updateRows_def)


theorem completeTestRun_effects_witness:
  "activeRun (runningTracker [None, Some (js ''down'')]) = Some 1
   \<and> succeeds 1 (runningTracker [None, Some (js ''down'')])
   \<and> \<not> succeeds 2 (runningTracker [None, Some (js ''down'')])
   \<and> \<not> succeeds 1 (runningTracker [Some (js ''down'')])
   \<and> succeeds 2 (runningTracker [])
   \<and> tests sampleResult \<noteq> []
   \<and> tests (sampleResult\<lparr>tests := []\<rparr>) = []
   \<and> testCases (snd (completeTestRun sampleResult (runningTracker [None, Some (js ''down'')]))) = []
   \<and> testRuns (snd (completeTestRun sampleResult (runningTracker [Some (js ''down'')]))) = [sampleRow]
   \<and> testCases (snd (completeTestRun sampleResult (runningTracker [])))
       = [caseRow 1 (hd (tests sampleResult))]
   \<and> testCases (snd (completeTestRun (sampleResult\<lparr>tests := []\<rparr>) (runningTracker []))) = []"
proof -
  have a: "activeRun (runningTracker fs) = Some 1" for fs
    by (simp add: runningTracker_def activeRun_def)
  show ?thesis
    using a
      completeTestRun_effects [OF a [of "[None, Some (js ''down'')]"], of sampleResult]
      completeTestRun_effects [OF a [of "[Some (js ''down'')]"], of sampleResult]
      completeTestRun_effects [OF a [of "[]"], of sampleResult]
      completeTestRun_effects [OF a [of "[]"], of "sampleResult\<lparr>tests := []\<rparr>"]
    by (simp add: runningTracker_def succeeds_def sampleResult_def)
qed

section \<open>Finishing a run twice\<close>

lemma succeeds_drop:
  assumes "succeeds (k + n) w" and "faults w' = drop k (faults w)"
  shows "succeeds n w'"
proof -
  have "take n (drop k (faults w)) = drop k (take (k + n) (faults w))"
    by (simp add: drop_take)
  then have "set (take n (faults w')) \<subseteq> set (take (k + n) (faults w))"
    using assms(2) by (simp add: set_drop_subset)
  then show ?thesis
    using assms(1) unfolding succeeds_def list_all_iff by blast
qed

lemma succeeds_mono:
  assumes "succeeds n w" and "m \<le> n"
  shows "succeeds m w"
  using assms set_take_subset_set_take [of m n "faults w"]
  unfolding succeeds_def list_all_iff by blast

lemma complete_succeeds:
  assumes "activeRun w = Some rid" and "succeeds (Suc (Suc 0)) w"
  shows "\<exists>k \<le> 2. faults (snd (completeTestRun result w)) = drop k (faults w)"
    and "testRunId (snd (completeTestRun result w)) = testRunId w"
    and "startTime (snd (completeTestRun result w)) = startTime w"
    and "clock (snd (completeTestRun result w)) = clock w"
    and "testCases (snd (completeTestRun result w)) = testCases w @ map (caseRow rid) (tests result)"
    and "testRuns (snd (completeTestRun result w)) = testRuns (store (finalUpdate rid result w) w)"
    and "filter isStatement (emitted w (snd (completeTestRun result w)))
          = Statement (finalUpdate rid result w) True
            # (if tests result = [] then [] else [Statement (caseInsert rid result) True])"
proof -
  have one: "succeeds (Suc 0) w"
    using succeeds_mono [OF assms(2), of "Suc 0"] by simp
  show "\<exists>k \<le> 2. faults (snd (completeTestRun result w)) = drop k (faults w)"
  proof (cases "tests result = []")
    case True
    have "faults (snd (completeTestRun result w)) = drop 1 (faults w)"
      by (simp add: complete_without_tests [OF assms(1) one True] drop_Suc)
    then show ?thesis by (intro exI [of _ 1]) simp
  next
    case False
    have "faults (snd (completeTestRun result w)) = drop 2 (faults w)"
      by (simp add: complete_with_tests [OF assms False] drop_Suc numeral_2_eq_2 drop_tl)
    then show ?thesis by (intro exI [of _ 2]) simp
  qed
  show "testRunId (snd (completeTestRun result w)) = testRunId w"
    "startTime (snd (completeTestRun result w)) = startTime w"
    "clock (snd (completeTestRun result w)) = clock w"
    "testCases (snd (completeTestRun result w)) = testCases w @ map (caseRow rid) (tests result)"
    "testRuns (snd (completeTestRun result w)) = testRuns (store (finalUpdate rid result w) w)"
    "filter isStatement (emitted w (snd (completeTestRun result w)))
          = Statement (finalUpdate rid result w) True
            # (if tests result = [] then [] else [Statement (caseInsert rid result) True])"
    using complete_without_tests [OF assms(1) one, of result] complete_with_tests [OF assms, of result]
    by (cases "tests result = []"; simp add: emitted_def)+
qed




text \<open>
  C10. \<open>completeTestRun\<close> leaves the identifier of the active run in place and does not
  look at the status of the run. When the store accepts the statements, a second call
  after a first one sends the terminal update again, so the rows of the run hold the
  values of the second result, and sends the bulk insert again when the second result
  has test cases: the table then holds the cases of the first call followed by those of
  the second, twice the same rows when the same result is passed twice.
\<close>

theorem completeTestRun_twice:
  assumes "activeRun w = Some rid" and "succeeds 4 w"
  shows "testRunId (snd (completeTestRun r1 w)) = testRunId w
    \<and> activeRun (snd (completeTestRun r2 (snd (completeTestRun r1 w)))) = Some rid
    \<and> filter isStatement
         (emitted (snd (completeTestRun r1 w)) (snd (completeTestRun r2 (snd (completeTestRun r1 w)))))
        = Statement (finalUpdate rid r2 w) True
          # (if tests r2 = [] then [] else [Statement (caseInsert rid r2) True])
    \<and> testCases (snd (completeTestRun r2 (snd (completeTestRun r1 w))))
        = testCases w @ map (caseRow rid) (tests r1) @ map (caseRow rid) (tests r2)
    \<and> (\<forall>r \<in> set (testRuns (snd (completeTestRun r2 (snd (completeTestRun r1 w))))).
          run_id r = rid \<longrightarrow> finalized r2 w r)"
proof -
  let ?w1 = "snd (completeTestRun r1 w)"
  let ?w2 = "snd (completeTestRun r2 ?w1)"
  have two: "succeeds (Suc (Suc 0)) w"
    using succeeds_mono [OF assms(2), of "Suc (Suc 0)"] by simp
  note first = complete_succeeds [OF assms(1) two, of r1]
  from first(1) obtain k where k: "k \<le> 2" "faults ?w1 = drop k (faults w)"
    by blast
  have "succeeds (k + 2) w"
    using succeeds_mono [OF assms(2), of "k + 2"] k(1) by simp
  then have two': "succeeds (Suc (Suc 0)) ?w1"
    using succeeds_drop [of k 2 w ?w1] k(2) by (simp add: numeral_2_eq_2)
  have active: "activeRun ?w1 = Some rid"
    using assms(1) first(2) by (simp add: activeRun_def)
  note second = complete_succeeds [OF active two', of r2]
  have same: "finalUpdate rid r2 ?w1 = finalUpdate rid r2 w"
    using first(3,4) by (simp add: finalUpdate_def)
  have fin: "\<forall>r \<in> set (testRuns ?w2). run_id r = rid \<longrightarrow> finalized r2 w r"
    using finalized_store [of _ rid r2 w ?w1] second(6) same by simp
  have "activeRun ?w2 = Some rid"
    using active second(2) by (simp add: activeRun_def)
  then show ?thesis
    using first(2,5) second(5,7) same fin by simp
qed

theorem completeTestRun_twice_witness:
  "activeRun (runningTracker []) = Some 1 \<and> succeeds 4 (runningTracker [])
   \<and> testCases (snd (completeTestRun sampleResult (snd (completeTestRun sampleResult (runningTracker [])))))
       = [caseRow 1 (hd (tests sampleResult)), caseRow 1 (hd (tests sampleResult))]"
proof -
  have a: "activeRun (runningTracker []) = Some 1"
    by (simp add: runningTracker_def activeRun_def)
  have s: "succeeds 4 (runningTracker [])"
    by (simp add: runningTracker_def succeeds_def)
  show ?thesis
    using a s completeTestRun_twice [OF a s, of sampleResult sampleResult]
    by (simp add: runningTracker_def sampleResult_def)
qed

section \<open>An exception in the executor\<close>

lemma completeTestRun_returns: "fst (completeTestRun result w) = Inr ()"
  by (simp add: completeTestRun_def Let_def split: option.splits prod.splits sum.splits)

lemma completeTestRun_normal: "completeTestRun result w = (Inr (), snd (completeTestRun result w))"
  using completeTestRun_returns [of result w] by (cases "completeTestRun result w") simp

text \<open>
  C8. When an exception leaves the \<open>try\<close> block of \<open>runTestSuite\<close>, the executor
  calls \<open>completeTestRun\<close> with a failed result whose three counters are zero, that has
  no test cases, and whose error summary is \<open>Test execution failed: \<close> followed by the
  message of the exception; then it throws the same exception.
\<close>

theorem runTestSuite_failure:
  assumes "collectResults ev w = (Inl e, w1)"
  shows "runTestSuite ev w = (Inl e, snd (completeTestRun (errorResult e) w1))
    \<and> result_status (errorResult e) = Failed
    \<and> totalTests (errorResult e) = 0 \<and> passedTests (errorResult e) = 0
    \<and> failedTests (errorResult e) = 0 \<and> tests (errorResult e) = []
    \<and> errorSummary (errorResult e) = Some (js ''Test execution failed: '' @ message e)"
proof -
  obtain w3 where called: "completeTestRun (errorResult e) w1 = (Inr (), w3)"
    using completeTestRun_normal by blast
  have "runTestSuite ev w = (Inl e, snd (completeTestRun (errorResult e) w1))"
    using assms called by (simp add: runTestSuite_def)
  then show ?thesis
    by (simp add: errorResult_def)
qed

theorem runTestSuite_failure_witness:
  "collectResults brokenFind (TestRunner [] [] [] 0)
     = (Inl \<lparr>message = js ''Command failed: find'', stdout = [], stderr = []\<rparr>, TestRunner [] [] [] 0)
   \<and> fst (runTestSuite brokenFind (TestRunner [] [] [] 0))
     = Inl \<lparr>message = js ''Command failed: find'', stdout = [], stderr = []\<rparr>"
proof -
  have c: "collectResults brokenFind (TestRunner [] [] [] 0)
     = (Inl \<lparr>message = js ''Command failed: find'', stdout = [], stderr = []\<rparr>, TestRunner [] [] [] 0)"
    by (simp add: collectResults_def brokenFind_def)
  show ?thesis
    using c runTestSuite_failure [OF c] by simp
qed

section \<open>Marker lines\<close>

lemmas string_eval = js_def isSpace_def isLineTerminator_def isDot_def isDigit_def greedyPlus_def
  lazyPlus_def firstMatch_def durationRegex_def passedRegex_def failedRegex_def skippedRegex_def
  passMarker_def failMarker_def skipMarker_def upt_rec trim_def startsWith_def split_def

lemmas parse_eval = parseAndUpdateTestCounts_def parseLine_def Let_def suiteOf_def nameOf_def
  orZero_def parseInt_def

lemma startsWith_marker: "startsWith t [m] \<longleftrightarrow> (\<exists>r. t = m # r)"
  by (cases t) (auto simp add: startsWith_def)

lemma markers_distinct:
  "passMarker \<noteq> failMarker" "passMarker \<noteq> skipMarker" "failMarker \<noteq> skipMarker"
  by (simp_all add: passMarker_def failMarker_def skipMarker_def)

text \<open>
  C4, as the code has it. A line that begins with the pass, fail or skip marker and does
  not match the regular expression of that marker is counted by the marker alone (passed
  and total, failed and total, or total only), and no test case is recorded for it: the
  array of results is as before.
\<close>

theorem malformed_marker_line:
  "(startsWith (trim line) [passMarker] \<and> passedRegex (trim line) = None \<longrightarrow>
      parseLine line st = st\<lparr>filePassed := filePassed st + 1, fileTotal := fileTotal st + 1\<rparr>
      \<and> testResults (parseLine line st) = testResults st)
   \<and> (startsWith (trim line) [failMarker] \<and> failedRegex (trim line) = None \<longrightarrow>
      parseLine line st = st\<lparr>fileFailed := fileFailed st + 1, fileTotal := fileTotal st + 1\<rparr>
      \<and> testResults (parseLine line st) = testResults st)
   \<and> (startsWith (trim line) [skipMarker] \<and> skippedRegex (trim line) = None \<longrightarrow>
      parseLine line st = st\<lparr>fileTotal := fileTotal st + 1\<rparr>
      \<and> testResults (parseLine line st) = testResults st)"
  using markers_distinct
  by (auto simp add: parseLine_def Let_def startsWith_marker)

text \<open>
  A pass-marker line with a malformed duration: it counts as one passed test, and the
  list of test cases stays empty.
\<close>

theorem malformed_line_counterexample:
  "parseAndUpdateTestCounts ([passMarker] @ js '' LoginSuite > renders 4.2ms'') []
     = (\<lparr>passed = 1, failed = 0, total = 1\<rparr>, [])"
  by (simp add: string_eval parse_eval)

theorem malformed_marker_line_witness:
  "startsWith (trim ([passMarker] @ js '' renders 4.2ms'')) [passMarker]
   \<and> passedRegex (trim ([passMarker] @ js '' renders 4.2ms'')) = None
   \<and> startsWith (trim ([failMarker] @ js '' submits'')) [failMarker]
   \<and> failedRegex (trim ([failMarker] @ js '' submits'')) = None
   \<and> startsWith (trim ([skipMarker] @ js ''pending'')) [skipMarker]
   \<and> skippedRegex (trim ([skipMarker] @ js ''pending'')) = None
   \<and> testResults (parseLine ([passMarker] @ js '' renders 4.2ms'')
        \<lparr>filePassed = 0, fileFailed = 0, fileTotal = 0, testResults = []\<rparr>) = []
   \<and> fileTotal (parseLine ([failMarker] @ js '' submits'')
        \<lparr>filePassed = 0, fileFailed = 0, fileTotal = 0, testResults = []\<rparr>) = 1
   \<and> fileTotal (parseLine ([skipMarker] @ js ''pending'')
        \<lparr>filePassed = 0, fileFailed = 0, fileTotal = 0, testResults = []\<rparr>) = 1"
proof -
  have a: "startsWith (trim ([passMarker] @ js '' renders 4.2ms'')) [passMarker]
      \<and> passedRegex (trim ([passMarker] @ js '' renders 4.2ms'')) = None"
    by (simp add: string_eval)
  have b: "startsWith (trim ([failMarker] @ js '' submits'')) [failMarker]
      \<and> failedRegex (trim ([failMarker] @ js '' submits'')) = None"
    by (simp add: string_eval)
  have c: "startsWith (trim ([skipMarker] @ js ''pending'')) [skipMarker]
      \<and> skippedRegex (trim ([skipMarker] @ js ''pending'')) = None"
    by (simp add: string_eval)
  show ?thesis
    using a b c
      malformed_marker_line [of "[passMarker] @ js '' renders 4.2ms''"
        "\<lparr>filePassed = 0, fileFailed = 0, fileTotal = 0, testResults = []\<rparr>"]
      malformed_marker_line [of "[failMarker] @ js '' submits''"
        "\<lparr>filePassed = 0, fileFailed = 0, fileTotal = 0, testResults = []\<rparr>"]
      malformed_marker_line [of "[skipMarker] @ js ''pending''"
        "\<lparr>filePassed = 0, fileFailed = 0, fileTotal = 0, testResults = []\<rparr>"]
    by simp
qed

text \<open>The counts of an output are the numbers of its lines with each marker.\<close>

lemma parseLine_counts:
  "filePassed (parseLine line st) = filePassed st + (if startsWith (trim line) [passMarker] then 1 else 0)"
  "fileFailed (parseLine line st) = fileFailed st + (if startsWith (trim line) [failMarker] then 1 else 0)"
  "fileTotal (parseLine line st) = fileTotal st
      + (if startsWith (trim line) [passMarker] then 1 else 0)
      + (if startsWith (trim line) [failMarker] then 1 else 0)
      + (if startsWith (trim line) [skipMarker] then 1 else 0)"
  using markers_distinct
  by (auto simp add: parseLine_def Let_def startsWith_marker split: option.splits)

lemma parseLines_counts:
  "filePassed (foldl (\<lambda>st line. parseLine line st) st ls)
     = filePassed st + length (filter (\<lambda>line. startsWith (trim line) [passMarker]) ls)"
  "fileFailed (foldl (\<lambda>st line. parseLine line st) st ls)
     = fileFailed st + length (filter (\<lambda>line. startsWith (trim line) [failMarker]) ls)"
  "fileTotal (foldl (\<lambda>st line. parseLine line st) st ls)
     = fileTotal st + length (filter (\<lambda>line. startsWith (trim line) [passMarker]) ls)
       + length (filter (\<lambda>line. startsWith (trim line) [failMarker]) ls)
       + length (filter (\<lambda>line. startsWith (trim line) [skipMarker]) ls)"
  by (induction ls arbitrary: st; simp add: parseLine_counts)+

lemma parse_stats:
  "passed (fst (parseAndUpdateTestCounts output results)) = countLines passMarker output"
  "failed (fst (parseAndUpdateTestCounts output results)) = countLines failMarker output"
  "total (fst (parseAndUpdateTestCounts output results))
     = countLines passMarker output + countLines failMarker output + countLines skipMarker output"
  by (simp_all add: parseAndUpdateTestCounts_def Let_def parseLines_counts countLines_def)

section \<open>Traces and the tables they leave\<close>

lemma store_testRuns_cong:
  "testRuns w1 = testRuns w2 \<Longrightarrow> testRuns (store s w1) = testRuns (store s w2)"
  by (cases s) simp_all

lemma persisted_testRuns_cong:
  "testRuns w1 = testRuns w2 \<Longrightarrow> testRuns (persisted evs w1) = testRuns (persisted evs w2)"
proof (induction evs arbitrary: w1 w2)
  case Nil
  then show ?case by (simp add: persisted_def)
next
  case (Cons e evs)
  have "testRuns (persist w1 e) = testRuns (persist w2 e)"
  proof (cases e)
    case (Statement s ok)
    then show ?thesis
      using Cons.prems store_testRuns_cong [of w1 w2 s] by simp
  qed (simp_all add: Cons.prems)
  then show ?case
    using Cons.IH [of "persist w1 e" "persist w2 e"] by (simp add: persisted_def)
qed

lemma persisted_append: "persisted (evs1 @ evs2) w = persisted evs2 (persisted evs1 w)"
  by (simp add: persisted_def)

lemma advances_refl: "advances P w w"
  by (simp add: advances_def persisted_def)

lemma advances_same:
  "trace w' = trace w \<Longrightarrow> testRuns w' = testRuns w \<Longrightarrow> advances P w w'"
  by (simp add: advances_def persisted_def)

lemma advances_trans:
  assumes "advances P w w1" and "advances P w1 w2"
  shows "advances P w w2"
proof -
  from assms(1) obtain evs1 where 1: "trace w1 = trace w @ evs1" "list_all P evs1"
      "testRuns w1 = testRuns (persisted evs1 w)"
    unfolding advances_def by blast
  from assms(2) obtain evs2 where 2: "trace w2 = trace w1 @ evs2" "list_all P evs2"
      "testRuns w2 = testRuns (persisted evs2 w1)"
    unfolding advances_def by blast
  have "testRuns w2 = testRuns (persisted (evs1 @ evs2) w)"
    using 2(3) persisted_testRuns_cong [OF 1(3), of evs2] by (simp add: persisted_append)
  then show ?thesis
    unfolding advances_def using 1 2 by (intro exI [of _ "evs1 @ evs2"]) simp
qed

lemma advances_mono:
  assumes "advances P w w'" and "\<And>e. P e \<Longrightarrow> Q e"
  shows "advances Q w w'"
  using assms unfolding advances_def list_all_iff by blast

lemma advances_console: "P (Console l n) \<Longrightarrow> advances P w (console l n w)"
  unfolding advances_def by (intro exI [of _ "[Console l n]"]) (simp add: console_def persisted_def)

lemma advances_sleep: "P (Timeout ms) \<Longrightarrow> advances P w (sleep ms w)"
  unfolding advances_def by (intro exI [of _ "[Timeout ms]"]) (simp add: sleep_def persisted_def)

lemma advances_issue: "P (Statement s True) \<Longrightarrow> P (Statement s False) \<Longrightarrow> advances P w (snd (issue s w))"
proof (cases "succeeds (Suc 0) w")
  case True
  assume "P (Statement s True)"
  then show ?thesis
    unfolding advances_def
    by (intro exI [of _ "[Statement s True]"])
       (simp add: succeeds_Suc_issue [OF True] persisted_def)
next
  case False
  assume p: "P (Statement s False)"
  from fails_issue [OF False, of s] obtain msg where
    "issue s w = (Inl (dbError msg), w\<lparr>faults := tl (faults w), trace := trace w @ [Statement s False]\<rparr>)"
    by blast
  then show ?thesis
    unfolding advances_def using p
    by (intro exI [of _ "[Statement s False]"]) (simp add: persisted_def)
qed

lemma onlyStatement_consistent: "consistent s \<Longrightarrow> onlyStatement s e \<Longrightarrow> consistentEvent e"
  by (cases e) (simp_all add: onlyStatement_def)

lemma retryTestCounts_advances:
  "advances (onlyStatement (UpdateCounts rid t p f)) w (snd (retryTestCounts rid p f t 3 0 w))"
  by (cases "faults w" rule: schedule_cases)
     (simp_all add: retry_unfold advances_def onlyStatement_def persisted_def)

lemma retryFileProgress_advances:
  "advances (onlyStatement (UpdateProgress rid cf c ph tf)) w (snd (retryFileProgress rid cf c ph tf 3 0 w))"
  by (cases "faults w" rule: schedule_cases)
     (simp_all add: retry_unfold advances_def onlyStatement_def persisted_def)

lemma updateTestCounts_normal: "updateTestCounts p f t w = (Inr (), snd (updateTestCounts p f t w))"
proof (cases "activeRun w")
  case None
  then show ?thesis by (simp add: updateTestCounts_def)
next
  case (Some rid)
  have "fst (retryTestCounts rid p f t 3 0 w) = Inr ()"
    using retryTestCounts_frame [of rid p f t w] by blast
  then show ?thesis
    using Some by (simp add: updateTestCounts_def prod_eq_iff)
qed

lemma updateFileProgress_normal:
  "updateFileProgress cf c ph tf w = (Inr (), snd (updateFileProgress cf c ph tf w))"
proof (cases "activeRun w")
  case None
  then show ?thesis by (simp add: updateFileProgress_def)
next
  case (Some rid)
  have "fst (retryFileProgress rid cf c ph tf 3 0 w) = Inr ()"
    using retryFileProgress_frame [of rid cf c ph tf w] by blast
  then show ?thesis
    using Some by (simp add: updateFileProgress_def prod_eq_iff)
qed

lemma updateTestCounts_advances:
  assumes "p + f \<le> t"
  shows "advances consistentEvent w (snd (updateTestCounts p f t w))"
proof (cases "activeRun w")
  case None
  then show ?thesis by (simp add: updateTestCounts_def advances_console)
next
  case (Some rid)
  have "onlyStatement (UpdateCounts rid t p f) e \<Longrightarrow> consistentEvent e" for e
    using assms onlyStatement_consistent [of "UpdateCounts rid t p f" e] by simp
  then have "advances consistentEvent w (snd (retryTestCounts rid p f t 3 0 w))"
    using advances_mono [OF retryTestCounts_advances] by blast
  then show ?thesis
    using Some by (simp add: updateTestCounts_def)
qed

lemma updateFileProgress_advances:
  assumes "c \<le> tf"
  shows "advances consistentEvent w (snd (updateFileProgress cf c ph tf w))"
proof (cases "activeRun w")
  case None
  then show ?thesis by (simp add: updateFileProgress_def advances_console)
next
  case (Some rid)
  have "onlyStatement (UpdateProgress rid cf c ph tf) e \<Longrightarrow> consistentEvent e" for e
    using assms onlyStatement_consistent [of "UpdateProgress rid cf c ph tf" e] by simp
  then have "advances consistentEvent w (snd (retryFileProgress rid cf c ph tf 3 0 w))"
    using advances_mono [OF retryFileProgress_advances] by blast
  then show ?thesis
    using Some by (simp add: updateFileProgress_def)
qed

section \<open>The loop over the categories\<close>

lemma accumulate_fields:
  "totalPassed (accumulate out n ls) = totalPassed ls + passed (fst (parseAndUpdateTestCounts out []))"
  "totalFailed (accumulate out n ls) = totalFailed ls + failed (fst (parseAndUpdateTestCounts out []))"
  "totalTestsAcc (accumulate out n ls) = totalTestsAcc ls + total (fst (parseAndUpdateTestCounts out []))"
  "allTestResults (accumulate out n ls) = allTestResults ls @ snd (parseAndUpdateTestCounts out [])"
  "completedFiles (accumulate out n ls) = completedFiles ls + n"
  by (simp_all add: accumulate_def split: prod.splits)

lemma accumulate_counts_le:
  assumes "totalPassed ls + totalFailed ls \<le> totalTestsAcc ls"
  shows "totalPassed (accumulate out n ls) + totalFailed (accumulate out n ls)
           \<le> totalTestsAcc (accumulate out n ls)"
  using assms by (simp add: accumulate_fields parse_stats)

lemma reportCategory_result:
  "fst (reportCategory label c tf (ls, w)) = Inr ()"
  "fst (snd (reportCategory label c tf (ls, w))) = ls"
proof -
  obtain w1 where 1: "updateTestCounts (totalPassed ls) (totalFailed ls) (totalTestsAcc ls) w = (Inr (), w1)"
    using updateTestCounts_normal by blast
  obtain w2 where 2: "updateFileProgress label (completedFiles ls) (cat_phase c) tf w1 = (Inr (), w2)"
    using updateFileProgress_normal by blast
  show "fst (reportCategory label c tf (ls, w)) = Inr ()"
    "fst (snd (reportCategory label c tf (ls, w))) = ls"
    using 1 2 by (simp_all add: reportCategory_def)
qed

lemma reportCategory_advances:
  assumes "totalPassed ls + totalFailed ls \<le> totalTestsAcc ls" and "completedFiles ls \<le> tf"
  shows "advances consistentEvent w (snd (snd (reportCategory label c tf (ls, w))))"
proof -
  obtain w1 where 1: "updateTestCounts (totalPassed ls) (totalFailed ls) (totalTestsAcc ls) w = (Inr (), w1)"
    using updateTestCounts_normal by blast
  obtain w2 where 2: "updateFileProgress label (completedFiles ls) (cat_phase c) tf w1 = (Inr (), w2)"
    using updateFileProgress_normal by blast
  have "advances consistentEvent w w1"
    using updateTestCounts_advances [OF assms(1), of w] 1 by simp
  moreover have "advances consistentEvent w1 w2"
    using updateFileProgress_advances [OF assms(2), of w1 label "cat_phase c"] 2 by simp
  ultimately have "advances consistentEvent w w2"
    by (rule advances_trans)
  then show ?thesis
    using 1 2 by (simp add: reportCategory_def)
qed

lemma afterTry:
  "(case tryCategory ev c n tf (ls, w) of
      (Inl e, s1) \<Rightarrow> catchCategory e c n tf s1
    | (Inr u, s1) \<Rightarrow> (Inr (), s1))
   = reportCategory
       (case vitest ev (cat_pattern c) of
          Inr out \<Rightarrow> js ''Completed '' @ cat_name c
        | Inl e \<Rightarrow> js ''Completed '' @ cat_name c @ js '' (with errors)'')
       c tf (accumulate (categoryOutput ev c) n ls, w)"
proof (cases "vitest ev (cat_pattern c)")
  case (Inl e)
  then show ?thesis
    by (simp add: tryCategory_def catchCategory_def categoryOutput_def)
next
  case (Inr out)
  have "fst (reportCategory (js ''Completed '' @ cat_name c) c tf (accumulate out n ls, w)) = Inr ()"
    by (rule reportCategory_result)
  then show ?thesis
    using Inr
    by (cases "reportCategory (js ''Completed '' @ cat_name c) c tf (accumulate out n ls, w)")
       (simp add: tryCategory_def categoryOutput_def)
qed

lemma runCategory_alt:
  "runCategory ev files tf c (ls, w) =
     (if length (categoryFiles files c) = 0 then (Inr (), ls, w)
      else
        (case updateFileProgress (cat_name c) (completedFiles ls) (cat_phase c) tf w of
           (Inl e, w1) \<Rightarrow> (Inl e, ls, w1)
         | (Inr u, w1) \<Rightarrow>
             (case (case tryCategory ev c (length (categoryFiles files c)) tf (ls, w1) of
                      (Inl e, s1) \<Rightarrow> catchCategory e c (length (categoryFiles files c)) tf s1
                    | (Inr u, s1) \<Rightarrow> (Inr (), s1)) of
                (Inl e, s2) \<Rightarrow> (Inl e, s2)
              | (Inr u, ls2, w2) \<Rightarrow> (Inr (), ls2, sleep 500 w2))))"
  unfolding runCategory_def Let_def categoryFiles_def by simp

lemma runCategory_result:
  "fst (runCategory ev files tf c (ls, w)) = Inr ()"
  "fst (snd (runCategory ev files tf c (ls, w))) = afterCategory ev files ls c"
proof -
  let ?n = "length (categoryFiles files c)"
  let ?label = "case vitest ev (cat_pattern c) of
          Inr out \<Rightarrow> js ''Completed '' @ cat_name c
        | Inl e \<Rightarrow> js ''Completed '' @ cat_name c @ js '' (with errors)''"
  obtain w1 where 1: "updateFileProgress (cat_name c) (completedFiles ls) (cat_phase c) tf w = (Inr (), w1)"
    using updateFileProgress_normal by blast
  obtain r ls2 w2 where 2: "reportCategory ?label c tf (accumulate (categoryOutput ev c) ?n ls, w1) = (r, ls2, w2)"
    by (metis prod.collapse)
  have 3: "r = Inr ()" "ls2 = accumulate (categoryOutput ev c) ?n ls"
    using reportCategory_result [of ?label c tf "accumulate (categoryOutput ev c) ?n ls" w1] 2
    by simp_all
  show "fst (runCategory ev files tf c (ls, w)) = Inr ()"
    "fst (snd (runCategory ev files tf c (ls, w))) = afterCategory ev files ls c"
    using 1 2 3 afterTry [where ev = ev and c = c and n = "?n" and tf = tf and ls = ls and w = w1]
    by (simp_all add: runCategory_alt afterCategory_def)
qed

lemma runCategory_advances:
  assumes "totalPassed ls + totalFailed ls \<le> totalTestsAcc ls"
    and "completedFiles ls + length (categoryFiles files c) \<le> tf"
  shows "advances consistentEvent w (snd (snd (runCategory ev files tf c (ls, w))))"
proof (cases "categoryFiles files c = []")
  case True
  then show ?thesis
    by (simp add: runCategory_alt advances_refl)
next
  case False
  let ?n = "length (categoryFiles files c)"
  let ?ls1 = "accumulate (categoryOutput ev c) ?n ls"
  let ?label = "case vitest ev (cat_pattern c) of
          Inr out \<Rightarrow> js ''Completed '' @ cat_name c
        | Inl e \<Rightarrow> js ''Completed '' @ cat_name c @ js '' (with errors)''"
  obtain w1 where 1: "updateFileProgress (cat_name c) (completedFiles ls) (cat_phase c) tf w = (Inr (), w1)"
    using updateFileProgress_normal by blast
  obtain r ls2 w2 where 2: "reportCategory ?label c tf (?ls1, w1) = (r, ls2, w2)"
    by (metis prod.collapse)
  have 3: "r = Inr ()"
    using reportCategory_result(1) [of ?label c tf ?ls1 w1] 2 by simp
  have "completedFiles ls \<le> tf" using assms(2) by simp
  then have a1: "advances consistentEvent w w1"
    using updateFileProgress_advances [of "completedFiles ls" tf w "cat_name c" "cat_phase c"] 1 by simp
  have "completedFiles ?ls1 \<le> tf"
    using assms(2) by (simp add: accumulate_fields)
  then have a2: "advances consistentEvent w1 w2"
    using reportCategory_advances [OF accumulate_counts_le [OF assms(1)], of "categoryOutput ev c" ?n tf w1 ?label c] 2
    by simp
  have a3: "advances consistentEvent w2 (sleep 500 w2)"
    by (simp add: advances_sleep)
  have "advances consistentEvent w (sleep 500 w2)"
    using a1 a2 a3 advances_trans by blast
  then show ?thesis
    using False 1 2 3 afterTry [where ev = ev and c = c and n = "?n" and tf = tf and ls = ls and w = w1]
    by (simp add: runCategory_alt)
qed

lemma runCategories_both:
  "fst (runCategories ev files tf cs (ls, w)) = Inr ()
   \<and> fst (snd (runCategories ev files tf cs (ls, w))) = foldl (afterCategory ev files) ls cs"
proof (induction cs arbitrary: ls w)
  case Nil
  show ?case by simp
next
  case (Cons c cs)
  obtain w1 where 1: "runCategory ev files tf c (ls, w) = (Inr (), afterCategory ev files ls c, w1)"
    using runCategory_result [of ev files tf c ls w]
    by (cases "runCategory ev files tf c (ls, w)") auto
  show ?case
    using 1 Cons.IH [of "afterCategory ev files ls c" w1] by simp
qed

lemma runCategories_result:
  "runCategories ev files tf cs (ls, w)
     = (Inr (), foldl (afterCategory ev files) ls cs, snd (snd (runCategories ev files tf cs (ls, w))))"
  using runCategories_both [of ev files tf cs ls w] by (simp add: prod_eq_iff)

lemma afterCategory_counts_le:
  assumes "totalPassed ls + totalFailed ls \<le> totalTestsAcc ls"
  shows "totalPassed (afterCategory ev files ls c) + totalFailed (afterCategory ev files ls c)
           \<le> totalTestsAcc (afterCategory ev files ls c)"
  using assms accumulate_counts_le by (simp add: afterCategory_def)

lemma afterCategory_completed:
  "completedFiles (afterCategory ev files ls c) = completedFiles ls + length (categoryFiles files c)"
  by (simp add: afterCategory_def accumulate_fields)

lemma runCategories_advances:
  assumes "totalPassed ls + totalFailed ls \<le> totalTestsAcc ls"
    and "completedFiles ls + (\<Sum>c\<leftarrow>cs. length (categoryFiles files c)) \<le> tf"
  shows "advances consistentEvent w (snd (snd (runCategories ev files tf cs (ls, w))))"
  using assms
proof (induction cs arbitrary: ls w)
  case Nil
  then show ?case by (simp add: advances_refl)
next
  case (Cons c cs)
  obtain w1 where 1: "runCategory ev files tf c (ls, w) = (Inr (), afterCategory ev files ls c, w1)"
    using runCategory_result [of ev files tf c ls w]
    by (cases "runCategory ev files tf c (ls, w)") auto
  have "completedFiles ls + length (categoryFiles files c) \<le> tf"
    using Cons.prems(2) by simp
  then have a1: "advances consistentEvent w w1"
    using runCategory_advances [OF Cons.prems(1), of files c tf w ev] 1 by simp
  have "completedFiles (afterCategory ev files ls c) + (\<Sum>c\<leftarrow>cs. length (categoryFiles files c)) \<le> tf"
    using Cons.prems(2) by (simp add: afterCategory_completed)
  then have a2: "advances consistentEvent w1
      (snd (snd (runCategories ev files tf cs (afterCategory ev files ls c, w1))))"
    using Cons.IH [OF afterCategory_counts_le [OF Cons.prems(1)]] by blast
  show ?case
    using 1 advances_trans [OF a1 a2] by simp
qed

text \<open>
  No two patterns of \<open>testCategories\<close> agree on their first eight code units, so a
  file belongs to at most one category.
\<close>

lemma pattern_key:
  assumes "prefix p f" and "8 \<le> length p"
  shows "take 8 f = take 8 p"
proof -
  from assms(1) obtain r where "f = p @ r" by (auto simp add: prefix_def)
  then show ?thesis using assms(2) by simp
qed

lemma one_category:
  "(\<Sum>c\<leftarrow>testCategories. if startsWith f (cat_pattern c) then 1 else 0) \<le> (1::nat)"
proof -
  have key: "startsWith f p \<Longrightarrow> 8 \<le> length p \<Longrightarrow> take 8 f = take 8 p" for p
    using pattern_key by (simp add: startsWith_def)
  have le: "(if startsWith f p then 1 else 0) \<le> (if take 8 f = take 8 p then 1 else (0::nat))"
    if "8 \<le> length p" for p
    using key [OF _ that] by simp
  have "(\<Sum>c\<leftarrow>testCategories. if startsWith f (cat_pattern c) then 1 else 0)
      \<le> (\<Sum>c\<leftarrow>testCategories. if take 8 f = take 8 (cat_pattern c) then 1 else (0::nat))"
  proof (rule sum_list_mono)
    fix c assume "c \<in> set testCategories"
    then have "8 \<le> length (cat_pattern c)"
      by (auto simp add: testCategories_def js_def)
    then show "(if startsWith f (cat_pattern c) then 1 else 0)
        \<le> (if take 8 f = take 8 (cat_pattern c) then 1 else (0::nat))"
      by (rule le)
  qed
  also have "\<dots> \<le> 1"
    by (auto simp add: testCategories_def js_def)
  finally show ?thesis .
qed

lemma categories_disjoint:
  "(\<Sum>c\<leftarrow>testCategories. length (categoryFiles files c)) \<le> length files"
proof (induction files)
  case Nil
  then show ?case by (simp add: categoryFiles_def)
next
  case (Cons f files)
  have "(\<Sum>c\<leftarrow>testCategories. length (categoryFiles (f # files) c))
      = (\<Sum>c\<leftarrow>testCategories. (if startsWith f (cat_pattern c) then 1 else 0)
           + length (categoryFiles files c))"
    by (rule arg_cong [where f = sum_list]) (simp add: categoryFiles_def)
  also have "\<dots> = (\<Sum>c\<leftarrow>testCategories. if startsWith f (cat_pattern c) then 1 else 0)
           + (\<Sum>c\<leftarrow>testCategories. length (categoryFiles files c))"
    by (simp add: sum_list_addf)
  also have "\<dots> \<le> 1 + length files"
    using one_category [of f] Cons.IH by linarith
  finally show ?case by simp
qed

lemma startTestRun_advances:
  "advances consistentEvent w (snd (startTestRun commitHash branch totalFiles w))"
proof -
  let ?w1 = "w\<lparr>startTime := clock w\<rparr>"
  let ?row = "\<lparr>run_id = freshId (testRuns w), run_commitHash = commitHash,
                 run_branch = branch, run_status = Running, run_startedAt = clock w,
                 run_totalFiles = totalFiles, run_completedFiles = 0,
                 run_currentFile = None, run_currentPhase = Some backend,
                 run_totalTests = 0, run_passedTests = 0, run_failedTests = 0,
                 run_duration = None, run_completedAt = None, run_errorSummary = None\<rparr>"
  have a1: "advances consistentEvent w ?w1"
    by (simp add: advances_same)
  have a2: "advances consistentEvent ?w1 (snd (issue (InsertRun ?row) ?w1))"
    by (rule advances_issue) simp_all
  obtain r w2 where i: "issue (InsertRun ?row) ?w1 = (r, w2)"
    by (cases "issue (InsertRun ?row) ?w1")
  have a12: "advances consistentEvent w w2"
    using advances_trans [OF a1 a2] i by simp
  show ?thesis
  proof (cases r)
    case (Inl e)
    then show ?thesis using i a12 by (simp add: startTestRun_def Let_def)
  next
    case (Inr u)
    have "advances consistentEvent w2 (w2\<lparr>testRunId := Some (freshId (testRuns w))\<rparr>)"
      by (simp add: advances_same)
    moreover have "advances consistentEvent (w2\<lparr>testRunId := Some (freshId (testRuns w))\<rparr>)
        (console Log (RunStarted (freshId (testRuns w))) (w2\<lparr>testRunId := Some (freshId (testRuns w))\<rparr>))"
      by (simp add: advances_console)
    ultimately show ?thesis
      using Inr i advances_trans [OF advances_trans [OF a12]]
      by (simp add: startTestRun_def Let_def)
  qed
qed

lemma completeTestRun_advances:
  assumes "passedTests result + failedTests result \<le> totalTests result"
  shows "advances consistentEvent w (snd (completeTestRun result w))"
proof (cases "activeRun w")
  case None
  then show ?thesis by (simp add: completeTestRun_def advances_console)
next
  case (Some rid)
  let ?upd = "finalUpdate rid result w"
  let ?ins = "caseInsert rid result"
  have c: "consistent ?upd" using assms by (simp add: finalUpdate_def)
  obtain r1 w1 where i1: "issue ?upd w = (r1, w1)" by (cases "issue ?upd w")
  have a1: "advances consistentEvent w w1"
    using advances_issue [of consistentEvent ?upd w] c i1 by simp
  show ?thesis
  proof (cases r1)
    case (Inl e)
    have "advances consistentEvent w1 (console Error (CompletionFailed e) w1)"
      by (simp add: advances_console)
    then show ?thesis
      using Some i1 Inl advances_trans [OF a1]
      by (simp add: completeTestRun_def Let_def finalUpdate_def)
  next
    case (Inr u)
    show ?thesis
    proof (cases "tests result = []")
      case True
      have "advances consistentEvent w1 (console Log (RunCompleted (result_status result)
                             (passedTests result) (totalTests result)) w1)"
        by (simp add: advances_console)
      then show ?thesis
        using Some i1 Inr True advances_trans [OF a1]
        by (simp add: completeTestRun_def Let_def finalUpdate_def)
    next
      case False
      obtain r2 w2 where i2: "issue ?ins w1 = (r2, w2)" by (cases "issue ?ins w1")
      have a2: "advances consistentEvent w1 w2"
        using advances_issue [of consistentEvent ?ins w1] i2 by (simp add: caseInsert_def)
      have a3: "advances consistentEvent w2 (console l n w2)" for l n
        by (simp add: advances_console)
      have "advances consistentEvent w (console l n w2)" for l n
        using advances_trans [OF advances_trans [OF a1 a2] a3] .
      then show ?thesis
        using Some i1 Inr False i2
        by (cases r2) (simp_all add: completeTestRun_def Let_def finalUpdate_def caseInsert_def)
    qed
  qed
qed

lemma foldl_afterCategory:
  "totalPassed (foldl (afterCategory ev files) ls cs)
     = totalPassed ls + (\<Sum>c\<leftarrow>filter (\<lambda>c. categoryFiles files c \<noteq> []) cs. passed (categoryStats ev c))"
  "totalFailed (foldl (afterCategory ev files) ls cs)
     = totalFailed ls + (\<Sum>c\<leftarrow>filter (\<lambda>c. categoryFiles files c \<noteq> []) cs. failed (categoryStats ev c))"
  "totalTestsAcc (foldl (afterCategory ev files) ls cs)
     = totalTestsAcc ls + (\<Sum>c\<leftarrow>filter (\<lambda>c. categoryFiles files c \<noteq> []) cs. total (categoryStats ev c))"
  "allTestResults (foldl (afterCategory ev files) ls cs)
     = allTestResults ls @ concat (map (categoryCases ev) (filter (\<lambda>c. categoryFiles files c \<noteq> []) cs))"
  by (induction cs arbitrary: ls;
      simp add: afterCategory_def accumulate_fields categoryStats_def categoryCases_def)+

lemma foldl_afterCategory_le:
  "totalPassed ls + totalFailed ls \<le> totalTestsAcc ls \<Longrightarrow>
   totalPassed (foldl (afterCategory ev files) ls cs) + totalFailed (foldl (afterCategory ev files) ls cs)
     \<le> totalTestsAcc (foldl (afterCategory ev files) ls cs)"
  by (induction cs arbitrary: ls) (simp_all add: afterCategory_counts_le)

lemma collectResults_cases:
  "(\<exists>e. fst (collectResults ev w) = Inl e)
   \<or> (\<exists>out. findOutput ev = Inr out
         \<and> fst (collectResults ev w)
             = Inr (finalResult (foldl (afterCategory ev (testFilesOf out)) initialLocals testCategories)))"
proof (cases "findOutput ev")
  case (Inl e)
  then show ?thesis by (simp add: collectResults_def)
next
  case (Inr out)
  obtain r w1 where s: "startTestRun (Some (js ''HEAD'')) (js ''main'') (length (testFilesOf out)) w = (r, w1)"
    by (cases "startTestRun (Some (js ''HEAD'')) (js ''main'') (length (testFilesOf out)) w")
  show ?thesis
  proof (cases r)
    case (Inl e)
    then show ?thesis using Inr s by (simp add: collectResults_def Let_def)
  next
    case r: (Inr rid)
    obtain w2 where "runCategories ev (testFilesOf out) (length (testFilesOf out)) testCategories
          (initialLocals, w1)
        = (Inr (), foldl (afterCategory ev (testFilesOf out)) initialLocals testCategories, w2)"
      using runCategories_result by blast
    then show ?thesis
      using Inr s r by (simp add: collectResults_def Let_def)
  qed
qed

lemma collectResults_advances:
  "advances consistentEvent w (snd (collectResults ev w))"
proof (cases "findOutput ev")
  case (Inl e)
  then show ?thesis by (simp add: collectResults_def advances_refl)
next
  case (Inr out)
  let ?files = "testFilesOf out"
  obtain r w1 where s: "startTestRun (Some (js ''HEAD'')) (js ''main'') (length ?files) w = (r, w1)"
    by (cases "startTestRun (Some (js ''HEAD'')) (js ''main'') (length ?files) w")
  have a1: "advances consistentEvent w w1"
    using startTestRun_advances [of w "Some (js ''HEAD'')" "js ''main''" "length ?files"] s by simp
  show ?thesis
  proof (cases r)
    case (Inl e)
    then show ?thesis using Inr s a1 by (simp add: collectResults_def Let_def)
  next
    case r: (Inr rid)
    have "advances consistentEvent w1
        (snd (snd (runCategories ev ?files (length ?files) testCategories (initialLocals, w1))))"
      by (rule runCategories_advances)
         (simp_all add: initialLocals_def categories_disjoint)
    then have "advances consistentEvent w
        (snd (snd (runCategories ev ?files (length ?files) testCategories (initialLocals, w1))))"
      using a1 advances_trans by blast
    moreover obtain w2 where "runCategories ev ?files (length ?files) testCategories
          (initialLocals, w1)
        = (Inr (), foldl (afterCategory ev ?files) initialLocals testCategories, w2)"
      using runCategories_result by blast
    ultimately show ?thesis
      using Inr s r by (simp add: collectResults_def Let_def)
  qed
qed

lemma runTestSuite_advances:
  "advances consistentEvent w (snd (runTestSuite ev w))"
proof -
  obtain r w1 where c: "collectResults ev w = (r, w1)" by (cases "collectResults ev w")
  have a1: "advances consistentEvent w w1"
    using collectResults_advances [of w ev] c by simp
  show ?thesis
  proof (cases r)
    case (Inl e)
    have "advances consistentEvent w1 (snd (completeTestRun (errorResult e) w1))"
      by (rule completeTestRun_advances) (simp add: errorResult_def)
    then have "advances consistentEvent w (snd (completeTestRun (errorResult e) w1))"
      using a1 advances_trans by blast
    moreover obtain w3 where "completeTestRun (errorResult e) w1 = (Inr (), w3)"
      using completeTestRun_normal by blast
    ultimately show ?thesis
      using c Inl by (simp add: runTestSuite_def)
  next
    case (Inr res)
    have "\<exists>ls. res = finalResult ls \<and> totalPassed ls + totalFailed ls \<le> totalTestsAcc ls"
      using collectResults_cases [of ev w] c Inr
        foldl_afterCategory_le [of initialLocals ev _ testCategories]
      by (auto simp add: initialLocals_def)
    then have "passedTests res + failedTests res \<le> totalTests res"
      by (auto simp add: finalResult_def)
    then have "advances consistentEvent w1 (snd (completeTestRun res w1))"
      by (rule completeTestRun_advances)
    then have "advances consistentEvent w (snd (completeTestRun res w1))"
      using a1 advances_trans by blast
    moreover obtain w3 where "completeTestRun res w1 = (Inr (), w3)"
      using completeTestRun_normal by blast
    ultimately show ?thesis
      using c Inr by (simp add: runTestSuite_def)
  qed
qed

section \<open>The final result\<close>

lemmas run_eval = runTestSuite_def collectResults_def testFilesOf_def startTestRun_def
  runCategory_def tryCategory_def catchCategory_def reportCategory_def
  accumulate_def errorOutput_def updateFileProgress_def updateTestCounts_def activeRun_def
  retryFileProgress.simps retryTestCounts.simps issue_def console_def sleep_def freshId_def
  completeTestRun_def caseRow_def finalResult_def initialLocals_def testCategories_def
  TestRunner_def updateRows_def numberToString.simps

lemmas category_eval = processed_def categoryFiles_def categoryStats_def categoryCases_def
  categoryOutput_def errorOutput_def countLines_def testFilesOf_def testCategories_def

lemma startTestRun_succeeds:
  assumes "succeeds (Suc 0) w"
  shows "\<exists>rid w1. startTestRun commitHash branch totalFiles w = (Inr rid, w1)"
proof -
  have "succeeds (Suc 0) (w\<lparr>startTime := clock w\<rparr>)"
    using assms by (simp add: succeeds_def)
  then show ?thesis
    by (simp add: startTestRun_def Let_def succeeds_Suc_issue)
qed

lemma collectResults_normal:
  assumes "findOutput ev = Inr out" and "succeeds (Suc 0) w"
  shows "\<exists>w1. collectResults ev w
      = (Inr (finalResult (foldl (afterCategory ev (testFilesOf out)) initialLocals testCategories)), w1)"
proof -
  obtain rid w1 where s: "startTestRun (Some (js ''HEAD'')) (js ''main'') (length (testFilesOf out)) w
      = (Inr rid, w1)"
    using startTestRun_succeeds [OF assms(2)] by blast
  obtain w2 where "runCategories ev (testFilesOf out) (length (testFilesOf out)) testCategories
        (initialLocals, w1)
      = (Inr (), foldl (afterCategory ev (testFilesOf out)) initialLocals testCategories, w2)"
    using runCategories_result by blast
  then show ?thesis
    using assms(1) s by (simp add: collectResults_def Let_def)
qed

lemma runTestSuite_normal:
  assumes "collectResults ev w = (Inr res, w1)"
  shows "runTestSuite ev w = completeTestRun res w1"
proof -
  obtain w2 where "completeTestRun res w1 = (Inr (), w2)"
    using completeTestRun_normal by blast
  then show ?thesis
    using assms by (simp add: runTestSuite_def)
qed

lemma outcome_fields:
  "totalTests (finalResult (foldl (afterCategory ev files) initialLocals testCategories))
     = (\<Sum>c\<leftarrow>processed files. total (categoryStats ev c))"
  "passedTests (finalResult (foldl (afterCategory ev files) initialLocals testCategories))
     = (\<Sum>c\<leftarrow>processed files. passed (categoryStats ev c))"
  "failedTests (finalResult (foldl (afterCategory ev files) initialLocals testCategories))
     = (\<Sum>c\<leftarrow>processed files. failed (categoryStats ev c))"
  "tests (finalResult (foldl (afterCategory ev files) initialLocals testCategories))
     = concat (map (categoryCases ev) (processed files))"
  by (simp_all add: finalResult_def foldl_afterCategory initialLocals_def processed_def)

lemma not_passed_lines:
  "(\<Sum>c\<leftarrow>cs. total (categoryStats ev c) - passed (categoryStats ev c))
     = (\<Sum>c\<leftarrow>cs. failed (categoryStats ev c)) + (\<Sum>c\<leftarrow>cs. countLines skipMarker (categoryOutput ev c))"
  by (induction cs) (simp_all add: categoryStats_def parse_stats)

text \<open>
  C1, as the code has it. When \<open>find\<close> returns and the insert of the run succeeds, the
  \<open>try\<close> block builds a final result and \<open>runTestSuite\<close> ends with the call of
  \<open>completeTestRun\<close> on it. In that result \<open>totalTests\<close>, \<open>passedTests\<close> and
  \<open>failedTests\<close> are the sums, over the categories that have files, of the total,
  passed and failed counts of the category. The sum of total minus passed is
  \<open>failedTests\<close> plus the number of skip-marker lines: a skipped test is in the total
  and in neither of the other two.
\<close>

theorem totals_are_sums:
  assumes "findOutput ev = Inr out" and "succeeds 1 w"
  shows "\<exists>res w1. collectResults ev w = (Inr res, w1)
      \<and> runTestSuite ev w = completeTestRun res w1
      \<and> totalTests res = (\<Sum>c\<leftarrow>processed (testFilesOf out). total (categoryStats ev c))
      \<and> passedTests res = (\<Sum>c\<leftarrow>processed (testFilesOf out). passed (categoryStats ev c))
      \<and> failedTests res = (\<Sum>c\<leftarrow>processed (testFilesOf out). failed (categoryStats ev c))
      \<and> (\<Sum>c\<leftarrow>processed (testFilesOf out). total (categoryStats ev c) - passed (categoryStats ev c))
          = failedTests res
            + (\<Sum>c\<leftarrow>processed (testFilesOf out). countLines skipMarker (categoryOutput ev c))"
proof -
  have s: "succeeds (Suc 0) w" using assms(2) by simp
  obtain w1 where c: "collectResults ev w
      = (Inr (finalResult (foldl (afterCategory ev (testFilesOf out)) initialLocals testCategories)), w1)"
    using collectResults_normal [OF assms(1) s] by blast
  show ?thesis
    using c runTestSuite_normal [OF c]
    by (simp add: outcome_fields not_passed_lines)
qed

text \<open>
  One category whose output is one skip-marker line: \<open>failedTests\<close> is 0, while the
  only category processed has total 1 and passed 0, so total minus passed is 1.
\<close>

theorem skipped_line_counterexample:
  "fst (collectResults skipScenario (TestRunner [] [] [] 0))
     = Inr \<lparr>result_status = Passed, totalTests = 1, passedTests = 0, failedTests = 0,
            result_duration = 0,
            tests = [\<lparr>suite = js ''Suite'', name = js ''pending'', status = TestSkipped,
                      duration = 0, error = None, stackTrace = None\<rparr>],
            errorSummary = None\<rparr>
   \<and> processed (testFilesOf (js ''tests/api/a.test.ts''))
     = [\<lparr>cat_pattern = js ''tests/api/'', cat_phase = backend, cat_name = js ''API Tests''\<rparr>]
   \<and> categoryStats skipScenario
       \<lparr>cat_pattern = js ''tests/api/'', cat_phase = backend, cat_name = js ''API Tests''\<rparr>
     = \<lparr>passed = 0, failed = 0, total = 1\<rparr>"
  by (simp add: skipScenario_def run_eval category_eval string_eval parse_eval)

theorem totals_are_sums_witness:
  "findOutput skipScenario = Inr (js ''tests/api/a.test.ts'')
   \<and> succeeds 1 (TestRunner [] [] [] 0)
   \<and> (case fst (collectResults skipScenario (TestRunner [] [] [] 0)) of
        Inl e \<Rightarrow> False
      | Inr res \<Rightarrow> (totalTests res, passedTests res, failedTests res) = (1, 0, 0))"
proof -
  have f: "findOutput skipScenario = Inr (js ''tests/api/a.test.ts'')"
    by (simp add: skipScenario_def)
  have s: "succeeds 1 (TestRunner [] [] [] 0)"
    by (simp add: succeeds_def TestRunner_def)
  have "(\<Sum>c\<leftarrow>processed (testFilesOf (js ''tests/api/a.test.ts'')). total (categoryStats skipScenario c)) = 1"
    "(\<Sum>c\<leftarrow>processed (testFilesOf (js ''tests/api/a.test.ts'')). passed (categoryStats skipScenario c)) = 0"
    "(\<Sum>c\<leftarrow>processed (testFilesOf (js ''tests/api/a.test.ts'')). failed (categoryStats skipScenario c)) = 0"
    by (simp_all add: skipScenario_def category_eval string_eval parse_eval)
  then show ?thesis
    using f s totals_are_sums [OF f s] by auto
qed

text \<open>
  C6. When \<open>find\<close> returns and the insert of the run succeeds, every category is
  processed and the result passed to \<open>completeTestRun\<close> has status failed when the
  accumulated failed count is not zero and passed otherwise, the accumulated counts, the
  test cases of all processed categories in order, and an error summary exactly when
  \<open>failedTests\<close> is positive, which then is the count followed by \<open> test(s) failed\<close>.
\<close>

theorem final_result:
  assumes "findOutput ev = Inr out" and "succeeds 1 w"
  shows "\<exists>res w1. collectResults ev w = (Inr res, w1)
      \<and> runTestSuite ev w = completeTestRun res w1
      \<and> result_status res = (if failedTests res = 0 then Passed else Failed)
      \<and> totalTests res = (\<Sum>c\<leftarrow>processed (testFilesOf out). total (categoryStats ev c))
      \<and> passedTests res = (\<Sum>c\<leftarrow>processed (testFilesOf out). passed (categoryStats ev c))
      \<and> failedTests res = (\<Sum>c\<leftarrow>processed (testFilesOf out). failed (categoryStats ev c))
      \<and> tests res = concat (map (categoryCases ev) (processed (testFilesOf out)))
      \<and> errorSummary res
          = (if 0 < failedTests res
             then Some (numberToString (failedTests res) @ js '' test(s) failed'') else None)"
proof -
  have s: "succeeds (Suc 0) w" using assms(2) by simp
  let ?res = "finalResult (foldl (afterCategory ev (testFilesOf out)) initialLocals testCategories)"
  obtain w1 where c: "collectResults ev w = (Inr ?res, w1)"
    using collectResults_normal [OF assms(1) s] by blast
  have st: "result_status ?res = (if failedTests ?res = 0 then Passed else Failed)"
    and es: "errorSummary ?res
          = (if 0 < failedTests ?res
             then Some (numberToString (failedTests ?res) @ js '' test(s) failed'') else None)"
    by (simp_all add: finalResult_def)
  show ?thesis
    using c runTestSuite_normal [OF c] st es outcome_fields [of ev "testFilesOf out"]
    by (intro exI [of _ ?res] exI [of _ w1]) simp
qed

theorem final_result_witness:
  "findOutput scenario
     = Inr (js ''tests/integration/a.test.ts'' @ [10] @ js ''tests/integration/b.test.ts''
            @ [10] @ js ''tests/integration/c.test.ts'' @ [10] @ js ''tests/api/d.test.ts'' @ [10])
   \<and> succeeds 1 (TestRunner [] [] [] 0)
   \<and> (case fst (collectResults scenario (TestRunner [] [] [] 0)) of
        Inl e \<Rightarrow> False
      | Inr res \<Rightarrow>
          (totalTests res, passedTests res, failedTests res, result_status res, errorSummary res)
            = (3, 2, 1, Failed, Some (js ''1 test(s) failed'')))"
proof -
  let ?out = "js ''tests/integration/a.test.ts'' @ [10] @ js ''tests/integration/b.test.ts''
            @ [10] @ js ''tests/integration/c.test.ts'' @ [10] @ js ''tests/api/d.test.ts'' @ [10]"
  have f: "findOutput scenario = Inr ?out"
    by (simp add: scenario_def)
  have s: "succeeds 1 (TestRunner [] [] [] 0)"
    by (simp add: succeeds_def TestRunner_def)
  have "(\<Sum>c\<leftarrow>processed (testFilesOf ?out). total (categoryStats scenario c)) = 3"
    "(\<Sum>c\<leftarrow>processed (testFilesOf ?out). passed (categoryStats scenario c)) = 2"
    "(\<Sum>c\<leftarrow>processed (testFilesOf ?out). failed (categoryStats scenario c)) = 1"
    by (simp_all add: scenario_def category_eval string_eval parse_eval)
  moreover have "numberToString 1 = js ''1''"
    by (simp add: numberToString.simps js_def)
  ultimately show ?thesis
    using f s final_result [OF f s] by (auto simp add: js_def)
qed

section \<open>The counters that are persisted\<close>

lemma updateRows_preserve:
  assumes "\<And>r0. run_id (g r0) = run_id r0"
    and "\<And>r0. Q r0 \<Longrightarrow> Q (g r0)"
    and "\<forall>r \<in> set rows. run_id r \<notin> I \<longrightarrow> Q r"
  shows "\<forall>r \<in> set (updateRows rid g rows). run_id r \<notin> I \<longrightarrow> Q r"
proof
  fix r assume "r \<in> set (updateRows rid g rows)"
  then have "r \<in> (\<lambda>r0. if run_id r0 = rid then g r0 else r0) ` set rows"
    unfolding updateRows_def by simp
  then obtain r0 where r0: "r0 \<in> set rows" "r = (if run_id r0 = rid then g r0 else r0)"
    by blast
  show "run_id r \<notin> I \<longrightarrow> Q r"
  proof
    assume "run_id r \<notin> I"
    then have "run_id r0 \<notin> I" using r0(2) assms(1) by (cases "run_id r0 = rid") simp_all
    then have "Q r0" using assms(3) r0(1) by blast
    then show "Q r" using r0(2) assms(2) by (cases "run_id r0 = rid") simp_all
  qed
qed

lemma store_rows_consistent:
  assumes "consistent s" and "\<forall>r \<in> set (testRuns w). run_id r \<notin> I \<longrightarrow> rowConsistent r"
  shows "\<forall>r \<in> set (testRuns (store s w)). run_id r \<notin> I \<longrightarrow> rowConsistent r"
proof (cases s)
  case (InsertRun row)
  then show ?thesis using assms by (simp add: rowConsistent_def)
next
  case (UpdateProgress rid cf completed ph files)
  have "\<forall>r \<in> set (updateRows rid
          (\<lambda>r. r\<lparr>run_currentFile := Some cf, run_completedFiles := completed,
                   run_currentPhase := Some ph, run_totalFiles := files\<rparr>) (testRuns w)).
        run_id r \<notin> I \<longrightarrow> rowConsistent r"
    using assms(1) UpdateProgress
    by (intro updateRows_preserve [OF _ _ assms(2)]) (simp_all add: rowConsistent_def)
  then show ?thesis using UpdateProgress by simp
next
  case (UpdateCounts rid tot pas fai)
  have "\<forall>r \<in> set (updateRows rid
          (\<lambda>r. r\<lparr>run_totalTests := tot, run_passedTests := pas, run_failedTests := fai\<rparr>)
          (testRuns w)).
        run_id r \<notin> I \<longrightarrow> rowConsistent r"
    using assms(1) UpdateCounts
    by (intro updateRows_preserve [OF _ _ assms(2)]) (simp_all add: rowConsistent_def)
  then show ?thesis using UpdateCounts by simp
next
  case (UpdateFinal rid st tot pas fai dur at summary)
  have "\<forall>r \<in> set (updateRows rid
          (\<lambda>r. r\<lparr>run_status := st, run_totalTests := tot, run_passedTests := pas,
                run_failedTests := fai, run_duration := Some dur, run_completedAt := Some at,
                run_errorSummary :=
                  (case summary of None \<Rightarrow> run_errorSummary r | Some s \<Rightarrow> Some s)\<rparr>)
          (testRuns w)).
        run_id r \<notin> I \<longrightarrow> rowConsistent r"
    using assms(1) UpdateFinal
    by (intro updateRows_preserve [OF _ _ assms(2)]) (simp_all add: rowConsistent_def)
  then show ?thesis using UpdateFinal by simp
next
  case (InsertCases rows)
  then show ?thesis using assms(2) by simp
qed

lemma persisted_rows_consistent:
  assumes "list_all consistentEvent evs"
    and "\<forall>r \<in> set (testRuns w). run_id r \<notin> I \<longrightarrow> rowConsistent r"
  shows "\<forall>r \<in> set (testRuns (persisted evs w)). run_id r \<notin> I \<longrightarrow> rowConsistent r"
  using assms
proof (induction evs arbitrary: w)
  case Nil
  then show ?case by (simp add: persisted_def)
next
  case (Cons e evs)
  have "\<forall>r \<in> set (testRuns (persist w e)). run_id r \<notin> I \<longrightarrow> rowConsistent r"
  proof (cases e)
    case (Statement s ok)
    then show ?thesis
      using Cons.prems store_rows_consistent [of s w I] by (cases ok) simp_all
  qed (simp_all add: Cons.prems)
  then show ?case
    using Cons.IH [of "persist w e"] Cons.prems(1) by (simp add: persisted_def)
qed

text \<open>
  C2. In every run, for every output of the tool, every list of files and every pattern
  of failures of the store: each statement sent writes passed and failed tests that are
  together at most the total it writes, and completed files that are at most the total
  files it writes; the table of runs at the end is what the successful statements of the
  run leave, in order; and after each event of the run, every row the run has created
  has \<open>passedTests + failedTests \<le> totalTests\<close> and \<open>completedFiles \<le> totalFiles\<close>.
\<close>

theorem counters_stay_consistent:
  "list_all consistentEvent (emitted w (snd (runTestSuite ev w)))
   \<and> testRuns (snd (runTestSuite ev w))
       = testRuns (persisted (emitted w (snd (runTestSuite ev w))) w)
   \<and> (\<forall>n. \<forall>r \<in> set (testRuns (persisted (take n (emitted w (snd (runTestSuite ev w)))) w)).
         run_id r \<notin> run_id ` set (testRuns w) \<longrightarrow> rowConsistent r)"
proof -
  obtain evs where evs: "trace (snd (runTestSuite ev w)) = trace w @ evs"
      "list_all consistentEvent evs"
      "testRuns (snd (runTestSuite ev w)) = testRuns (persisted evs w)"
    using runTestSuite_advances [of w ev] unfolding advances_def by blast
  have em: "emitted w (snd (runTestSuite ev w)) = evs"
    using evs(1) by (simp add: emitted_def)
  have "\<forall>r \<in> set (testRuns (persisted (take n evs) w)).
      run_id r \<notin> run_id ` set (testRuns w) \<longrightarrow> rowConsistent r" for n
  proof (rule persisted_rows_consistent)
    show "list_all consistentEvent (take n evs)"
      using evs(2) unfolding list_all_iff by (meson in_set_takeD)
    show "\<forall>r \<in> set (testRuns w). run_id r \<notin> run_id ` set (testRuns w) \<longrightarrow> rowConsistent r"
      by simp
  qed
  then show ?thesis
    using em evs(2,3) by simp
qed

theorem counters_stay_consistent_witness:
  "filter isStatement (emitted (TestRunner [] [] [] 0) (snd (runTestSuite skipScenario (TestRunner [] [] [] 0))))
     = [Statement (InsertRun \<lparr>run_id = 1, run_commitHash = Some (js ''HEAD''), run_branch = js ''main'',
                     run_status = Running, run_startedAt = 0, run_totalFiles = 1,
                     run_completedFiles = 0, run_currentFile = None,
                     run_currentPhase = Some backend, run_totalTests = 0, run_passedTests = 0,
                     run_failedTests = 0, run_duration = None, run_completedAt = None,
                     run_errorSummary = None\<rparr>) True,
        Statement (UpdateProgress 1 (js ''API Tests'') 0 backend 1) True,
        Statement (UpdateCounts 1 1 0 0) True,
        Statement (UpdateProgress 1 (js ''Completed API Tests'') 1 backend 1) True,
        Statement (UpdateFinal 1 Passed 1 0 0 500 500 None) True,
        Statement (InsertCases [\<lparr>case_testRunId = 1, case_testSuite = js ''Suite'',
                     case_testName = js ''pending'', case_status = TestSkipped, case_duration = 0,
                     case_errorMessage = None, case_stackTrace = None\<rparr>]) True]
   \<and> list_all consistentEvent
        (emitted (TestRunner [] [] [] 0) (snd (runTestSuite skipScenario (TestRunner [] [] [] 0))))
   \<and> map rowConsistent (testRuns (snd (runTestSuite skipScenario (TestRunner [] [] [] 0)))) = [True]"
proof -
  have "filter isStatement (emitted (TestRunner [] [] [] 0) (snd (runTestSuite skipScenario (TestRunner [] [] [] 0))))
     = [Statement (InsertRun \<lparr>run_id = 1, run_commitHash = Some (js ''HEAD''), run_branch = js ''main'',
                     run_status = Running, run_startedAt = 0, run_totalFiles = 1,
                     run_completedFiles = 0, run_currentFile = None,
                     run_currentPhase = Some backend, run_totalTests = 0, run_passedTests = 0,
                     run_failedTests = 0, run_duration = None, run_completedAt = None,
                     run_errorSummary = None\<rparr>) True,
        Statement (UpdateProgress 1 (js ''API Tests'') 0 backend 1) True,
        Statement (UpdateCounts 1 1 0 0) True,
        Statement (UpdateProgress 1 (js ''Completed API Tests'') 1 backend 1) True,
        Statement (UpdateFinal 1 Passed 1 0 0 500 500 None) True,
        Statement (InsertCases [\<lparr>case_testRunId = 1, case_testSuite = js ''Suite'',
                     case_testName = js ''pending'', case_status = TestSkipped, case_duration = 0,
                     case_errorMessage = None, case_stackTrace = None\<rparr>]) True]"
    by (simp add: skipScenario_def emitted_def run_eval string_eval parse_eval)
  moreover have "map rowConsistent (testRuns (snd (runTestSuite skipScenario (TestRunner [] [] [] 0)))) = [True]"
    by (simp add: skipScenario_def rowConsistent_def run_eval string_eval parse_eval)
  ultimately show ?thesis
    using counters_stay_consistent [of "TestRunner [] [] [] 0" skipScenario] by simp
qed

end
